theory Spec2Isabelle
  imports Main "HOL-Library.Word"
begin

section \<open>The key/value context-cache engine of the UniZero world model\<close>

text \<open>
  A shallow embedding of the cache substrate of
  \<^verbatim>\<open>lzero/model/unizero_world_models/world_model.py\<close> and of \<^verbatim>\<open>hash_state\<close> in
  \<^verbatim>\<open>utils.py\<close>: the three slot pools with their ring cursors, the two state-hash
  indices, trim-and-pad, the window shrink with its positional correction, the memoised
  lookup, and the entry points that drive them.

  Conventions. A tensor of shape [heads, positions, head_dim] is a list over its sequence
  axis; one position (all heads and features of it) is a value of an arbitrary type
  \<open>'a\<close> with \<open>0\<close>, \<open>+\<close> and \<open>-\<close>, so no floating-point law is assumed. A cache of
  one environment (batch width 1) holds such a list, a batched cache a list of them, one
  row per environment. Sizes, cursors and the context length are natural numbers: the
  source guards every \<open>context_length - 1\<close> and \<open>context_length - 3\<close> by an early
  return on \<open>context_length <= 2\<close>. An exception is a value \<open>Inl e\<close>; the state
  reached when an exception escapes is not tracked, since the search driver gives the
  episode up on any of them.
\<close>

subsection \<open>Exceptions\<close>

datatype py_error =
    IndexError | KeyError | ValueError | TypeError | RuntimeError | AttributeError
  | AssertionError | ZeroDivisionError | UnboundLocalError

fun bind_r :: "py_error + 'x \<Rightarrow> ('x \<Rightarrow> py_error + 'y) \<Rightarrow> py_error + 'y" where
  "bind_r (Inl e) f = Inl e"
| "bind_r (Inr x) f = f x"

text \<open>Python's \<^verbatim>\<open>xs[i]\<close> for \<open>i \<ge> 0\<close>, its \<^verbatim>\<open>xs[i] = v\<close> and its \<^verbatim>\<open>max(xs)\<close>.\<close>

definition nth_r :: "'x list \<Rightarrow> nat \<Rightarrow> py_error + 'x" where
  "nth_r xs i = (if i < length xs then Inr (xs ! i) else Inl IndexError)"

definition set_r :: "'x list \<Rightarrow> nat \<Rightarrow> 'x \<Rightarrow> py_error + 'x list" where
  "set_r xs i v = (if i < length xs then Inr (xs[i := v]) else Inl IndexError)"

definition max_r :: "nat list \<Rightarrow> py_error + nat" where
  "max_r xs = (case xs of [] \<Rightarrow> Inl ValueError | y # ys \<Rightarrow> Inr (fold max ys y))"

text \<open>A \<^verbatim>\<open>for\<close> loop over a list of indices; the first exception ends it.\<close>

fun for_each :: "'i list \<Rightarrow> ('i \<Rightarrow> 's \<Rightarrow> py_error + 's) \<Rightarrow> 's \<Rightarrow> py_error + 's" where
  "for_each [] f s = Inr s"
| "for_each (i # is) f s = bind_r (f i s) (for_each is f)"

subsection \<open>Tensors along the sequence axis\<close>

text \<open>
  \<^verbatim>\<open>F.pad(t, (0, 0, p, 0))\<close> and \<^verbatim>\<open>F.pad(t, (0, 0, 0, p))\<close> put \<open>p\<close> zero positions
  before and after; \<^verbatim>\<open>t[:, :-p, :]\<close> for \<open>p > 0\<close> drops the last \<open>p\<close> positions (all of
  them when \<open>p\<close> is the length or more); \<^verbatim>\<open>t[:, a:b, :]\<close> is the span from \<open>a\<close> up to
  \<open>b\<close>, cut at the end of the tensor.
\<close>

definition pad_front :: "nat \<Rightarrow> 'a::zero list \<Rightarrow> 'a list" where
  "pad_front p t = replicate p 0 @ t"

definition pad_back :: "nat \<Rightarrow> 'a::zero list \<Rightarrow> 'a list" where
  "pad_back p t = t @ replicate p 0"

definition drop_last :: "nat \<Rightarrow> 'a list \<Rightarrow> 'a list" where
  "drop_last p t = take (length t - p) t"

definition slice :: "nat \<Rightarrow> nat \<Rightarrow> 'a list \<Rightarrow> 'a list" where
  "slice a b t = take (b - a) (drop a t)"

text \<open>
  Elementwise arithmetic of torch along the sequence axis. \<^verbatim>\<open>x - y\<close> broadcasts a length
  of 1 on either side; the in-place \<^verbatim>\<open>x += y\<close> broadcasts only \<open>y\<close>; \<^verbatim>\<open>dst.copy_(src)\<close>
  broadcasts only \<open>src\<close>. Any other mismatch of lengths raises.
\<close>

definition tensor_sub :: "'a::minus list \<Rightarrow> 'a list \<Rightarrow> py_error + 'a list" where
  "tensor_sub x y =
     (if length x = length y then Inr (map2 (-) x y)
      else if length y = 1 then Inr (map (\<lambda>u. u - hd y) x)
      else if length x = 1 then Inr (map (\<lambda>v. hd x - v) y)
      else Inl RuntimeError)"

definition tensor_iadd :: "'a::plus list \<Rightarrow> 'a list \<Rightarrow> py_error + 'a list" where
  "tensor_iadd x y =
     (if length x = length y then Inr (map2 (+) x y)
      else if length y = 1 then Inr (map (\<lambda>u. u + hd y) x)
      else Inl RuntimeError)"

definition tensor_copy :: "'a list \<Rightarrow> 'a list \<Rightarrow> py_error + 'a list" where
  "tensor_copy dst src =
     (if length src = length dst then Inr src
      else if length src = 1 then Inr (replicate (length dst) (hd src))
      else Inl RuntimeError)"

text \<open>
  \<^verbatim>\<open>torch.stack(ts, dim=0).squeeze(1)\<close> over tensors of batch width 1: the rows of the
  batched tensor. It raises on an empty list and on tensors of different lengths.
\<close>

definition stack_rows :: "'a list list \<Rightarrow> py_error + 'a list list" where
  "stack_rows ts =
     (case ts of [] \<Rightarrow> Inl RuntimeError
      | t # us \<Rightarrow> if list_all (\<lambda>u. length u = length t) us then Inr ts else Inl RuntimeError)"

subsection \<open>LayerCache and ContextCache\<close>

text \<open>
  Modelled from the spec: \<^verbatim>\<open>modeling/kv_caching.py\<close> (classes \<^verbatim>\<open>Cache\<close>, \<^verbatim>\<open>KVCache\<close>,
  \<^verbatim>\<open>KeysValues\<close>) is not among the sources. A LayerCache owns a key buffer and a value
  buffer, each with a fill size; a ContextCache is one LayerCache per layer and reports
  the size of its layers; a new one is zero-initialised and empty. The fields are the ones
  world_model.py reads and writes (\<^verbatim>\<open>_cache\<close>, \<^verbatim>\<open>_size\<close>, \<^verbatim>\<open>_k_cache\<close>, \<^verbatim>\<open>_v_cache\<close>,
  \<^verbatim>\<open>_keys_values\<close>). \<open>'t\<close> is \<open>'a list\<close> for a cache of width 1 and \<open>'a list list\<close>
  for a batched one.
\<close>

record 't Cache =
  cache :: 't
  size_c :: nat

record 't KVCache =
  k_cache :: "'t Cache"
  v_cache :: "'t Cache"

type_synonym 't KeysValues = "'t KVCache list"

definition new_KVCache :: "'t \<Rightarrow> 't KVCache" where
  "new_KVCache z = \<lparr>k_cache = \<lparr>cache = z, size_c = 0\<rparr>, v_cache = \<lparr>cache = z, size_c = 0\<rparr>\<rparr>"

text \<open>\<^verbatim>\<open>KeysValues(1, num_heads, max_tokens, embed_dim, num_layers, device)\<close>.\<close>

definition new_KeysValues :: "nat \<Rightarrow> nat \<Rightarrow> 'a::zero list KeysValues" where
  "new_KeysValues max_tokens layers = replicate layers (new_KVCache (replicate max_tokens 0))"

text \<open>\<^verbatim>\<open>transformer.generate_empty_keys_values(n, max_tokens)\<close> for a model of \<open>layers\<close> layers.\<close>

definition generate_empty_keys_values ::
  "nat \<Rightarrow> nat \<Rightarrow> nat \<Rightarrow> 'a::zero list list KeysValues" where
  "generate_empty_keys_values layers n max_tokens =
     replicate layers (new_KVCache (replicate n (replicate max_tokens 0)))"

text \<open>The property \<^verbatim>\<open>KeysValues.size\<close>: the size of the first layer.\<close>

definition size_kv :: "'t KeysValues \<Rightarrow> py_error + nat" where
  "size_kv kv = (case kv of [] \<Rightarrow> Inl IndexError | l # _ \<Rightarrow> Inr (size_c (k_cache l)))"

text \<open>
  \<^verbatim>\<open>t.unsqueeze(0)\<close> on every buffer of a width-1 cache, and back. The transformer keeps
  the batch width of the cache it is given (\<^verbatim>\<open>Cache.update\<close> asserts it).
\<close>

definition unsqueeze_kv :: "'a list KeysValues \<Rightarrow> 'a list list KeysValues" where
  "unsqueeze_kv kv =
     map (\<lambda>l. \<lparr>k_cache = \<lparr>cache = [cache (k_cache l)], size_c = size_c (k_cache l)\<rparr>,
               v_cache = \<lparr>cache = [cache (v_cache l)], size_c = size_c (v_cache l)\<rparr>\<rparr>) kv"

definition squeeze_layer :: "'a list list KVCache \<Rightarrow> py_error + 'a list KVCache" where
  "squeeze_layer l =
     (case (cache (k_cache l), cache (v_cache l)) of
        ([k], [v]) \<Rightarrow> Inr \<lparr>k_cache = \<lparr>cache = k, size_c = size_c (k_cache l)\<rparr>,
                          v_cache = \<lparr>cache = v, size_c = size_c (v_cache l)\<rparr>\<rparr>
      | _ \<Rightarrow> Inl AssertionError)"

fun squeeze_kv :: "'a list list KeysValues \<Rightarrow> py_error + 'a list KeysValues" where
  "squeeze_kv [] = Inr []"
| "squeeze_kv (l # ls) =
     bind_r (squeeze_layer l) (\<lambda>l'. bind_r (squeeze_kv ls) (\<lambda>ls'. Inr (l' # ls')))"

subsection \<open>The state of the world model that the cache engine owns\<close>

text \<open>
  An entry of \<^verbatim>\<open>keys_values_wm_list\<close> is a reference to a ContextCache object: a slot of
  the working pool (what \<^verbatim>\<open>custom_copy_kv_cache_to_shared_wm\<close> returns), the object
  that \<^verbatim>\<open>self.keys_values_wm_single_env\<close> names at present, or an object nothing else
  names any more.
\<close>

datatype 'a kv_ref = Wm_slot nat | Single_env | Detached "'a list KeysValues"

type_synonym 'a diff_table = "(nat \<times> nat) \<rightharpoonup> 'a list"

record 'a WorldModel =
  context_length :: nat
  num_layers :: nat
  env_num :: nat
  rotary_emb :: bool
  continuous_action_space :: bool
  num_observations_tokens :: nat
  shared_pool_size :: nat
  shared_pool_recur_infer :: "'a list KeysValues option list"
  shared_pool_index :: nat
  shared_pool_size_init :: nat
  shared_pool_init_infer :: "'a list KeysValues option list list"
  shared_pool_index_init_envs :: "nat list"
  shared_pool_size_wm :: nat
  shared_pool_wm :: "'a list KeysValues option list"
  shared_pool_index_wm :: nat
  reanalyze_phase :: bool
  past_kv_cache_recurrent_infer :: "string \<rightharpoonup> nat"
  past_kv_cache_init_infer_envs :: "(string \<rightharpoonup> nat) list"
  keys_values_wm_list :: "'a kv_ref list"
  keys_values_wm_size_list :: "nat list"
  keys_values_wm_size_list_current :: "nat list option"
  keys_values_wm :: "'a list list KeysValues"
  keys_values_wm_single_env :: "'a list KeysValues"
  latent_state :: "8 word list list option"
  pos_emb_diff_k :: "'a diff_table list option"
  pos_emb_diff_v :: "'a diff_table list option"
  hit_count :: nat
  total_query_count :: nat
  root_hit_cnt :: nat
  root_total_query_cnt :: nat

subsection \<open>Pool stores\<close>

text \<open>
  The copy loop shared by the three stores: \<^verbatim>\<open>zip\<close> pairs the layers, so layers of the
  destination beyond the source's keep their content.
\<close>

definition copy_layer :: "'a list KVCache \<Rightarrow> 'a list KVCache \<Rightarrow> py_error + 'a list KVCache" where
  "copy_layer src_layer dst_layer =
     bind_r (tensor_copy (cache (k_cache dst_layer)) (cache (k_cache src_layer))) (\<lambda>k.
     bind_r (tensor_copy (cache (v_cache dst_layer)) (cache (v_cache src_layer))) (\<lambda>v.
     Inr \<lparr>k_cache = \<lparr>cache = k, size_c = size_c (k_cache src_layer)\<rparr>,
          v_cache = \<lparr>cache = v, size_c = size_c (v_cache src_layer)\<rparr>\<rparr>))"

fun copy_layers :: "'a list KeysValues \<Rightarrow> 'a list KeysValues \<Rightarrow> py_error + 'a list KeysValues" where
  "copy_layers (s # ss) (d # ds) =
     bind_r (copy_layer s d) (\<lambda>d'. bind_r (copy_layers ss ds) (\<lambda>ds'. Inr (d' # ds')))"
| "copy_layers ss ds = Inr ds"

text \<open>
  The slot under the cursor after the copy: allocated from the shape of the source's
  first key buffer when it is still \<^verbatim>\<open>None\<close>, reused otherwise.
\<close>

definition fill_slot ::
  "'a::zero list KeysValues \<Rightarrow> 'a list KeysValues option \<Rightarrow> py_error + 'a list KeysValues" where
  "fill_slot src_kv slot =
     bind_r (nth_r src_kv 0) (\<lambda>first.
       let dst_kv = (case slot of
                       None \<Rightarrow> new_KeysValues (length (cache (k_cache first))) (length src_kv)
                     | Some kv \<Rightarrow> kv)
       in copy_layers src_kv dst_kv)"

definition mod_r :: "nat \<Rightarrow> nat \<Rightarrow> py_error + nat" where
  "mod_r a b = (if b = 0 then Inl ZeroDivisionError else Inr (a mod b))"

definition custom_copy_kv_cache_to_shared_init_envs ::
  "'a::zero list KeysValues \<Rightarrow> nat \<Rightarrow> 'a WorldModel \<Rightarrow> py_error + (nat \<times> 'a WorldModel)" where
  "custom_copy_kv_cache_to_shared_init_envs src_kv env_id self =
     bind_r (nth_r (shared_pool_init_infer self) env_id) (\<lambda>pool.
     bind_r (nth_r (shared_pool_index_init_envs self) env_id) (\<lambda>cursor.
     bind_r (nth_r pool cursor) (\<lambda>slot.
     bind_r (fill_slot src_kv slot) (\<lambda>dst_kv.
     bind_r (mod_r (cursor + 1) (shared_pool_size_init self)) (\<lambda>next.
     Inr (cursor,
          self\<lparr>shared_pool_init_infer :=
                 (shared_pool_init_infer self)[env_id := pool[cursor := Some dst_kv]],
               shared_pool_index_init_envs :=
                 (shared_pool_index_init_envs self)[env_id := next]\<rparr>))))))"

definition custom_copy_kv_cache_to_shared_wm ::
  "'a::zero list KeysValues \<Rightarrow> 'a WorldModel \<Rightarrow> py_error + ('a kv_ref \<times> 'a WorldModel)" where
  "custom_copy_kv_cache_to_shared_wm src_kv self =
     bind_r (nth_r (shared_pool_wm self) (shared_pool_index_wm self)) (\<lambda>slot.
     bind_r (fill_slot src_kv slot) (\<lambda>dst_kv.
     bind_r (mod_r (shared_pool_index_wm self + 1) (shared_pool_size_wm self)) (\<lambda>next.
     Inr (Wm_slot (shared_pool_index_wm self),
          self\<lparr>shared_pool_wm := (shared_pool_wm self)[shared_pool_index_wm self := Some dst_kv],
               shared_pool_index_wm := next\<rparr>))))"

definition custom_copy_kv_cache_to_shared_recur ::
  "'a::zero list KeysValues \<Rightarrow> 'a WorldModel \<Rightarrow> py_error + (nat \<times> 'a WorldModel)" where
  "custom_copy_kv_cache_to_shared_recur src_kv self =
     bind_r (nth_r (shared_pool_recur_infer self) (shared_pool_index self)) (\<lambda>slot.
     bind_r (fill_slot src_kv slot) (\<lambda>dst_kv.
     bind_r (mod_r (shared_pool_index self + 1) (shared_pool_size self)) (\<lambda>next.
     Inr (shared_pool_index self,
          self\<lparr>shared_pool_recur_infer :=
                 (shared_pool_recur_infer self)[shared_pool_index self := Some dst_kv],
               shared_pool_index := next\<rparr>))))"

subsection \<open>The state hash\<close>

text \<open>
  \<^verbatim>\<open>hash_state(state) = xxhash.xxh64(state).hexdigest()\<close>. The xxhash library is not part
  of the repository: its 64-bit digest of a byte string (a fresh hasher with the default
  seed at every call) is the parameter \<open>xxh64\<close>. \<^verbatim>\<open>hexdigest\<close> writes the digest as 16
  lower-case hexadecimal digits, the most significant first. A latent state is the byte
  string of its array.
\<close>

type_synonym latent = "8 word list"

definition hex_digit :: "nat \<Rightarrow> char" where
  "hex_digit n = ''0123456789abcdef'' ! n"

definition nibble :: "64 word \<Rightarrow> nat \<Rightarrow> nat" where
  "nibble w i = unat (drop_bit (4 * i) w) mod 16"

definition hexdigest :: "64 word \<Rightarrow> string" where
  "hexdigest w = map (\<lambda>i. hex_digit (nibble w i)) (rev [0..<16])"

definition hash_state :: "(latent \<Rightarrow> 64 word) \<Rightarrow> latent \<Rightarrow> string" where
  "hash_state xxh64 state = hexdigest (xxh64 state)"

subsection \<open>The positional-delta table\<close>

text \<open>
  \<^verbatim>\<open>_get_positional_embedding(layer, attn_type)\<close> applies the key or value projection of
  the layer's attention block to every row of \<^verbatim>\<open>pos_emb.weight\<close>, as these weights
  are at the moment of the call. The projections belong to the transformer, which is not
  among the sources: \<open>attn\<close> is a parameter, and so is the embedding table
  \<open>weight\<close>, one row per position (\<^verbatim>\<open>max_tokens\<close> of them).

  The weights are state of the model: \<open>Weights\<close> holds the ones the table of positional
  deltas is computed from, \<^verbatim>\<open>pos_emb.weight\<close> and, for every layer, the projections
  \<^verbatim>\<open>transformer.blocks[layer].attn.key\<close> and \<^verbatim>\<open>.value\<close>.
\<close>

datatype attn_type = Key | Value

record ('e, 'a) Weights =
  pos_emb_weight :: "'e list"
  attn_proj :: "nat \<Rightarrow> attn_type \<Rightarrow> 'e \<Rightarrow> 'a"

definition get_positional_embedding ::
  "(nat \<Rightarrow> attn_type \<Rightarrow> 'e \<Rightarrow> 'a) \<Rightarrow> 'e list \<Rightarrow> nat \<Rightarrow> attn_type \<Rightarrow> 'a list" where
  "get_positional_embedding attn weight layer ty = map (attn layer ty) weight"

text \<open>One entry of a layer's table: \<^verbatim>\<open>pe[:end - start] - pe[start:end]\<close>.\<close>

definition pos_emb_diff :: "'a::minus list \<Rightarrow> nat \<Rightarrow> nat \<Rightarrow> py_error + 'a list" where
  "pos_emb_diff pe start end = tensor_sub (slice 0 (end - start) pe) (slice start end pe)"

fun map_r :: "('x \<Rightarrow> py_error + 'y) \<Rightarrow> 'x list \<Rightarrow> py_error + 'y list" where
  "map_r f [] = Inr []"
| "map_r f (x # xs) = bind_r (f x) (\<lambda>y. bind_r (map_r f xs) (\<lambda>ys. Inr (y # ys)))"

text \<open>
  The loops over \<^verbatim>\<open>start\<close> and \<^verbatim>\<open>end\<close> run once each, for the window
  \<open>(2, context_length - 1)\<close>. Each layer's key entry is computed before its value entry.
\<close>

definition layer_tables ::
  "(nat \<Rightarrow> attn_type \<Rightarrow> 'e \<Rightarrow> 'a::minus) \<Rightarrow> 'e list \<Rightarrow> nat \<Rightarrow> nat \<Rightarrow>
     py_error + ('a diff_table \<times> 'a diff_table)" where
  "layer_tables attn weight cl layer =
     bind_r (pos_emb_diff (get_positional_embedding attn weight layer Key) 2 (cl - 1)) (\<lambda>dk.
     bind_r (pos_emb_diff (get_positional_embedding attn weight layer Value) 2 (cl - 1)) (\<lambda>dv.
     Inr ([(2, cl - 1) \<mapsto> dk], [(2, cl - 1) \<mapsto> dv])))"

definition precompute_pos_emb_diff_kv ::
  "(nat \<Rightarrow> attn_type \<Rightarrow> 'e \<Rightarrow> 'a::minus) \<Rightarrow> 'e list \<Rightarrow> 'a WorldModel \<Rightarrow> py_error + 'a WorldModel" where
  "precompute_pos_emb_diff_kv attn weight self =
     (if context_length self \<le> 2 then Inr self
      else bind_r (map_r (layer_tables attn weight (context_length self)) [0..<num_layers self])
             (\<lambda>ts. Inr (self\<lparr>pos_emb_diff_k := Some (map fst ts),
                              pos_emb_diff_v := Some (map snd ts)\<rparr>)))"

subsection \<open>Window shrink\<close>

text \<open>\<^verbatim>\<open>self.pos_emb_diff_k[layer][(2, context_length - 1)]\<close> and its value twin.\<close>

definition table_entry ::
  "'a diff_table list option \<Rightarrow> nat \<Rightarrow> nat \<times> nat \<Rightarrow> py_error + 'a list" where
  "table_entry tables layer window =
     (case tables of None \<Rightarrow> Inl AttributeError
      | Some ts \<Rightarrow> bind_r (nth_r ts layer) (\<lambda>t.
          case t window of None \<Rightarrow> Inl KeyError | Some d \<Rightarrow> Inr d))"

text \<open>
  The correction of the retained span (lines 1148-1155 and 1195-1202): nothing under
  rotary embeddings, the table entries added in place otherwise.
\<close>

definition correct_trimmed ::
  "'a::plus WorldModel \<Rightarrow> nat \<Rightarrow> 'a list \<Rightarrow> 'a list \<Rightarrow> py_error + ('a list \<times> 'a list)" where
  "correct_trimmed self layer k_cache_trimmed v_cache_trimmed =
     (if \<not> rotary_emb self then
        bind_r (table_entry (pos_emb_diff_k self) layer (2, context_length self - 1)) (\<lambda>dk.
        bind_r (table_entry (pos_emb_diff_v self) layer (2, context_length self - 1)) (\<lambda>dv.
        bind_r (tensor_iadd k_cache_trimmed dk) (\<lambda>k.
        bind_r (tensor_iadd v_cache_trimmed dv) (\<lambda>v. Inr (k, v)))))
      else Inr (k_cache_trimmed, v_cache_trimmed))"

text \<open>
  The shrink of one layer of one environment: the span from 2 up to
  \<open>context_length - 1\<close> is cut out and corrected, 3 zero positions are put behind it and
  the size becomes \<open>context_length - 3\<close>. The result is the corrected span of the keys
  and of the values (what the in-place addition leaves in the tensor the span is a view
  of) and the new layer.
\<close>

definition shrink_window ::
  "'a::{zero,plus} WorldModel \<Rightarrow> nat \<Rightarrow> 'a list \<Rightarrow> 'a list \<Rightarrow>
     py_error + ('a list \<times> 'a list \<times> 'a list KVCache)" where
  "shrink_window self layer k_cache_current v_cache_current =
     bind_r (correct_trimmed self layer
               (slice 2 (context_length self - 1) k_cache_current)
               (slice 2 (context_length self - 1) v_cache_current)) (\<lambda>(k, v).
     Inr (k, v,
          \<lparr>k_cache = \<lparr>cache = pad_back 3 k, size_c = context_length self - 3\<rparr>,
           v_cache = \<lparr>cache = pad_back 3 v, size_c = context_length self - 3\<rparr>\<rparr>))"

text \<open>
  Writing a span back at position \<open>a\<close> of a row, and a corrected pair of spans back into
  row \<open>i\<close> of a layer of the batched cache: the effect of \<^verbatim>\<open>+=\<close> on a view of it.
\<close>

definition write_span :: "nat \<Rightarrow> 'a list \<Rightarrow> 'a list \<Rightarrow> 'a list" where
  "write_span a new row = take a row @ new @ drop (a + length new) row"

definition write_back ::
  "nat \<Rightarrow> nat \<Rightarrow> 'a list \<Rightarrow> 'a list \<Rightarrow> 'a list list KeysValues \<Rightarrow> 'a list list KeysValues" where
  "write_back layer i k v kv =
     kv[layer := \<lparr>k_cache = (k_cache (kv ! layer))
                    \<lparr>cache := (cache (k_cache (kv ! layer)))
                               [i := write_span 2 k (cache (k_cache (kv ! layer)) ! i)]\<rparr>,
                  v_cache = (v_cache (kv ! layer))
                    \<lparr>cache := (cache (v_cache (kv ! layer)))
                               [i := write_span 2 v (cache (v_cache (kv ! layer)) ! i)]\<rparr>\<rparr>]"

subsection \<open>Trim-and-pad\<close>

definition deref :: "'a WorldModel \<Rightarrow> 'a kv_ref \<Rightarrow> py_error + 'a list KeysValues" where
  "deref self r =
     (case r of
        Wm_slot i \<Rightarrow> bind_r (nth_r (shared_pool_wm self) i) (\<lambda>slot.
                       case slot of None \<Rightarrow> Inl TypeError | Some kv \<Rightarrow> Inr kv)
      | Single_env \<Rightarrow> Inr (keys_values_wm_single_env self)
      | Detached kv \<Rightarrow> Inr kv)"

text \<open>The body of the loop over the environments, for one layer (lines 1053-1071).\<close>

definition trim_and_pad_item ::
  "'a::zero WorldModel \<Rightarrow> nat \<Rightarrow> nat \<Rightarrow> nat \<times> 'a kv_ref \<Rightarrow> py_error + ('a list \<times> 'a list)" where
  "trim_and_pad_item self max_size layer item =
     bind_r (deref self (snd item)) (\<lambda>keys_values.
     bind_r (nth_r keys_values layer) (\<lambda>l.
     bind_r (nth_r (keys_values_wm_size_list self) (fst item)) (\<lambda>effective_size.
       let pad_size = max_size - effective_size in
       if pad_size > 0
       then Inr (pad_front pad_size (drop_last pad_size (cache (k_cache l))),
                 pad_front pad_size (drop_last pad_size (cache (v_cache l))))
       else Inr (cache (k_cache l), cache (v_cache l)))))"

definition trim_and_pad_layer ::
  "nat \<Rightarrow> nat \<Rightarrow> 'a::zero WorldModel \<Rightarrow> py_error + 'a WorldModel" where
  "trim_and_pad_layer max_size layer self =
     bind_r (map_r (trim_and_pad_item self max_size layer)
               (enumerate 0 (keys_values_wm_list self))) (\<lambda>kvs.
     bind_r (stack_rows (map fst kvs)) (\<lambda>k.
     bind_r (stack_rows (map snd kvs)) (\<lambda>v.
     bind_r (set_r (keys_values_wm self) layer
               \<lparr>k_cache = \<lparr>cache = k, size_c = max_size\<rparr>,
                v_cache = \<lparr>cache = v, size_c = max_size\<rparr>\<rparr>) (\<lambda>kv.
     Inr (self\<lparr>keys_values_wm := kv\<rparr>)))))"

text \<open>The flag \<^verbatim>\<open>is_init_infer\<close> is not read by the source.\<close>

definition trim_and_pad_kv_cache ::
  "bool \<Rightarrow> 'a::zero WorldModel \<Rightarrow> py_error + (nat list \<times> 'a WorldModel)" where
  "trim_and_pad_kv_cache is_init_infer self =
     bind_r (max_r (keys_values_wm_size_list self)) (\<lambda>max_size.
     bind_r (for_each [0..<num_layers self] (trim_and_pad_layer max_size) self) (\<lambda>self'.
     Inr (keys_values_wm_size_list self', self')))"

subsection \<open>The forward pass\<close>

text \<open>
  \<^verbatim>\<open>forward\<close> (lines 419-635) builds the input sequence, runs the transformer on it and
  applies the heads. The transformer and the heads are not among the sources, and the only
  effect of \<^verbatim>\<open>forward\<close> on the state is the transformer's in-place update of the cache
  it is given. It is the parameter \<open>fwd\<close> below: from the state it may read, the input
  dictionary, the cache (if any), \<^verbatim>\<open>is_init_infer\<close>, \<^verbatim>\<open>start_pos\<close> and
  \<^verbatim>\<open>search_depth\<close> to an exception, or the output and the new content of the cache.
  Of the output only \<^verbatim>\<open>logits_observations\<close> is read by the cache engine, one latent
  per row; the other logits are an opaque value.
\<close>

datatype start_pos = Pos_int int | Pos_array "int list" | Pos_matrix nat "int list list"

datatype 'v action = Scalar int | NdArray 'v

datatype 'v fwd_input =
    Obs_embeddings "latent list"
  | Act_tokens "'v action list"
  | Obs_embeddings_and_act_tokens "latent list" "'v action list"

record 'o WorldModelOutput =
  logits_observations :: "latent list"
  other_logits :: 'o

type_synonym ('a, 'v, 'o) forward_fn =
  "'a WorldModel \<Rightarrow> 'v fwd_input \<Rightarrow> 'a list list KeysValues option \<Rightarrow> bool \<Rightarrow> start_pos \<Rightarrow>
     int list option \<Rightarrow> py_error + ('o WorldModelOutput \<times> 'a list list KeysValues)"

text \<open>\<^verbatim>\<open>self.forward(..., past_keys_values=self.keys_values_wm, ...)\<close>.\<close>

definition forward_wm ::
  "('a, 'v, 'o) forward_fn \<Rightarrow> 'v fwd_input \<Rightarrow> bool \<Rightarrow> start_pos \<Rightarrow> int list option \<Rightarrow>
     'a WorldModel \<Rightarrow> py_error + ('o WorldModelOutput \<times> 'a WorldModel)" where
  "forward_wm fwd inp is_init_infer sp search_depth self =
     bind_r (fwd self inp (Some (keys_values_wm self)) is_init_infer sp search_depth) (\<lambda>(out, kv).
     Inr (out, self\<lparr>keys_values_wm := kv\<rparr>))"

text \<open>\<^verbatim>\<open>self.forward(..., past_keys_values=self.keys_values_wm_single_env, is_init_infer=True, ...)\<close>.\<close>

definition forward_single ::
  "('a, 'v, 'o) forward_fn \<Rightarrow> 'v fwd_input \<Rightarrow> start_pos \<Rightarrow>
     'a WorldModel \<Rightarrow> py_error + ('o WorldModelOutput \<times> 'a WorldModel)" where
  "forward_single fwd inp sp self =
     bind_r (fwd self inp (Some (unsqueeze_kv (keys_values_wm_single_env self))) True sp None)
       (\<lambda>(out, kv).
     bind_r (squeeze_kv kv) (\<lambda>kv'.
     Inr (out, self\<lparr>keys_values_wm_single_env := kv'\<rparr>)))"

text \<open>
  \<^verbatim>\<open>start_pos[i].item()\<close> and \<^verbatim>\<open>start_pos[:n]\<close>. An integer is not subscriptable;
  \<^verbatim>\<open>item()\<close> of a row needs a row of one element. A matrix is its number of columns
  and its rows.
\<close>

definition start_pos_item :: "start_pos \<Rightarrow> nat \<Rightarrow> py_error + int" where
  "start_pos_item sp i =
     (case sp of
        Pos_int _ \<Rightarrow> Inl TypeError
      | Pos_array xs \<Rightarrow> nth_r xs i
      | Pos_matrix num_cols rows \<Rightarrow>
          bind_r (nth_r rows i) (\<lambda>r. case r of [x] \<Rightarrow> Inr x | _ \<Rightarrow> Inl ValueError))"

definition start_pos_take :: "start_pos \<Rightarrow> nat \<Rightarrow> py_error + start_pos" where
  "start_pos_take sp n =
     (case sp of
        Pos_int _ \<Rightarrow> Inl TypeError
      | Pos_array xs \<Rightarrow> Inr (Pos_array (take n xs))
      | Pos_matrix num_cols rows \<Rightarrow> Inr (Pos_matrix num_cols (take n rows)))"

text \<open>
  The start position of a miss in the reanalyze phase (lines 1280-1286): \<^verbatim>\<open>start_pos\<close>
  is a matrix there, and \<^verbatim>\<open>num_cols\<close> is the second component of its shape, also when
  it has no rows. \<^verbatim>\<open>start_pos[row_idx, col_idx]\<close> raises beyond the last row.
\<close>

definition start_pos_reanalyze :: "start_pos \<Rightarrow> nat \<Rightarrow> py_error + int" where
  "start_pos_reanalyze sp index =
     (case sp of
        Pos_int _ \<Rightarrow> Inl AttributeError
      | Pos_array _ \<Rightarrow> Inl ValueError
      | Pos_matrix num_cols rows \<Rightarrow>
          let total_cols = num_cols + 1;
              row_idx = index div total_cols;
              col_idx = index mod total_cols
          in if col_idx = num_cols then Inr 0
             else bind_r (nth_r rows row_idx) (\<lambda>r. nth_r r col_idx))"

subsection \<open>Updating the cache context\<close>

text \<open>
  What an internal node reads out of the batched cache for environment \<open>i\<close> and one
  layer (lines 1111-1134): row \<open>i\<close>, with the \<open>trim_size\<close> leading zero positions
  moved to the end, at the environment's own size.
\<close>

definition read_layer_internal ::
  "nat \<Rightarrow> nat \<Rightarrow> nat \<Rightarrow> nat \<Rightarrow> 'a::zero WorldModel \<Rightarrow> py_error + 'a list KVCache" where
  "read_layer_internal i trim_size size_i layer self =
     bind_r (nth_r (keys_values_wm self) layer) (\<lambda>wm_layer.
     bind_r (nth_r (cache (k_cache wm_layer)) i) (\<lambda>k_cache_current.
     bind_r (nth_r (cache (v_cache wm_layer)) i) (\<lambda>v_cache_current.
       let k_cache_padded = (if trim_size > 0 then pad_back trim_size (drop trim_size k_cache_current)
                             else k_cache_current);
           v_cache_padded = (if trim_size > 0 then pad_back trim_size (drop trim_size v_cache_current)
                             else v_cache_current)
       in Inr \<lparr>k_cache = \<lparr>cache = k_cache_padded, size_c = size_i\<rparr>,
               v_cache = \<lparr>cache = v_cache_padded, size_c = size_i\<rparr>\<rparr>)))"

text \<open>
  One layer of one environment at an internal node (lines 1108-1167). The span that
  \<^verbatim>\<open>+=\<close> corrects is a view of the batched cache when nothing was trimmed, and of a
  fresh tensor otherwise.
\<close>

definition update_layer_internal ::
  "nat \<Rightarrow> nat \<Rightarrow> nat \<Rightarrow> nat \<Rightarrow> 'a::{zero,plus} WorldModel \<Rightarrow> py_error + 'a WorldModel" where
  "update_layer_internal i trim_size size_i layer self =
     bind_r (read_layer_internal i trim_size size_i layer self) (\<lambda>l.
     bind_r (set_r (keys_values_wm_single_env self) layer l) (\<lambda>single.
       if size_i \<ge> context_length self - 1 then
         bind_r (shrink_window self layer (cache (k_cache l)) (cache (v_cache l))) (\<lambda>(k, v, l').
         bind_r (set_r single layer l') (\<lambda>single'.
         Inr (self\<lparr>keys_values_wm :=
                     (if \<not> rotary_emb self \<and> trim_size = 0
                      then write_back layer i k v (keys_values_wm self)
                      else keys_values_wm self),
                   keys_values_wm_single_env := single'\<rparr>)))
       else Inr (self\<lparr>keys_values_wm_single_env := single\<rparr>)))"

text \<open>
  What the root reads out of the batched cache for environment \<open>i\<close> and one layer
  (lines 1177-1185 and 1188-1189): row \<open>i\<close>, at the sizes of the batched cache.
\<close>

definition read_layer_root ::
  "nat \<Rightarrow> nat \<Rightarrow> 'a WorldModel \<Rightarrow> py_error + 'a list KVCache" where
  "read_layer_root i layer self =
     bind_r (nth_r (keys_values_wm self) layer) (\<lambda>wm_layer.
     bind_r (nth_r (cache (k_cache wm_layer)) i) (\<lambda>k_cache_current.
     bind_r (nth_r (cache (v_cache wm_layer)) i) (\<lambda>v_cache_current.
       Inr \<lparr>k_cache = \<lparr>cache = k_cache_current, size_c = size_c (k_cache wm_layer)\<rparr>,
            v_cache = \<lparr>cache = v_cache_current, size_c = size_c (v_cache wm_layer)\<rparr>\<rparr>)))"

text \<open>One layer of one environment at the root (lines 1173-1214).\<close>

definition update_layer_root ::
  "nat \<Rightarrow> nat \<Rightarrow> 'a::{zero,plus} WorldModel \<Rightarrow> py_error + 'a WorldModel" where
  "update_layer_root i layer self =
     bind_r (read_layer_root i layer self) (\<lambda>l.
       if size_c (k_cache l) < context_length self - 1 then
         bind_r (set_r (keys_values_wm_single_env self) layer l)
           (\<lambda>single. Inr (self\<lparr>keys_values_wm_single_env := single\<rparr>))
       else
         bind_r (shrink_window self layer (cache (k_cache l)) (cache (v_cache l))) (\<lambda>(k, v, l').
         bind_r (set_r (keys_values_wm_single_env self) layer l') (\<lambda>single.
         Inr (self\<lparr>keys_values_wm :=
                     (if \<not> rotary_emb self then write_back layer i k v (keys_values_wm self)
                      else keys_values_wm self),
                   keys_values_wm_single_env := single\<rparr>))))"

text \<open>The layers of environment \<open>i\<close> (lines 1103-1214).\<close>

definition update_layers ::
  "bool \<Rightarrow> nat \<Rightarrow> 'a::{zero,plus} WorldModel \<Rightarrow> py_error + 'a WorldModel" where
  "update_layers is_init_infer i self =
     (if \<not> is_init_infer then
        (case keys_values_wm_size_list_current self of
           None \<Rightarrow> Inl AttributeError
         | Some sizes \<Rightarrow>
             bind_r (max_r sizes) (\<lambda>current_max_context_length.
             bind_r (nth_r sizes i) (\<lambda>size_i.
             for_each [0..<num_layers self]
               (update_layer_internal i (current_max_context_length - size_i) size_i) self)))
      else for_each [0..<num_layers self] (update_layer_root i) self)"

text \<open>
  The cache of environment \<open>i\<close> at one layer as \<open>update_layers\<close> reads it, before any
  shrink.
\<close>

definition read_env_layer ::
  "bool \<Rightarrow> nat \<Rightarrow> nat \<Rightarrow> 'a::zero WorldModel \<Rightarrow> py_error + 'a list KVCache" where
  "read_env_layer is_init_infer i layer self =
     (if \<not> is_init_infer then
        (case keys_values_wm_size_list_current self of
           None \<Rightarrow> Inl AttributeError
         | Some sizes \<Rightarrow>
             bind_r (max_r sizes) (\<lambda>current_max_context_length.
             bind_r (nth_r sizes i) (\<lambda>size_i.
             read_layer_internal i (current_max_context_length - size_i) size_i layer self)))
      else read_layer_root i layer self)"

text \<open>The store of environment \<open>i\<close> and the entry of its state hash (lines 1216-1223).\<close>

definition store_context ::
  "bool \<Rightarrow> nat \<Rightarrow> string \<Rightarrow> 'a::zero WorldModel \<Rightarrow> py_error + 'a WorldModel" where
  "store_context is_init_infer i cache_key self =
     (if is_init_infer then
        bind_r (custom_copy_kv_cache_to_shared_init_envs (keys_values_wm_single_env self) i self)
          (\<lambda>(cache_index, self').
        bind_r (nth_r (past_kv_cache_init_infer_envs self') i) (\<lambda>d.
        Inr (self'\<lparr>past_kv_cache_init_infer_envs :=
                     (past_kv_cache_init_infer_envs self')[i := d(cache_key \<mapsto> cache_index)]\<rparr>)))
      else
        bind_r (custom_copy_kv_cache_to_shared_recur (keys_values_wm_single_env self) self)
          (\<lambda>(cache_index, self').
        Inr (self'\<lparr>past_kv_cache_recurrent_infer :=
                     (past_kv_cache_recurrent_infer self')(cache_key \<mapsto> cache_index)\<rparr>)))"

definition update_cache_context_env ::
  "(latent \<Rightarrow> 64 word) \<Rightarrow> latent list \<Rightarrow> bool \<Rightarrow> nat \<Rightarrow> 'a::{zero,plus} WorldModel \<Rightarrow>
     py_error + 'a WorldModel" where
  "update_cache_context_env xxh64 latent is_init_infer i self =
     bind_r (nth_r latent i) (\<lambda>row.
     bind_r (update_layers is_init_infer i self) (\<lambda>self'.
     store_context is_init_infer i (hash_state xxh64 row) self'))"

definition update_cache_context ::
  "(latent \<Rightarrow> 64 word) \<Rightarrow> latent list \<Rightarrow> bool \<Rightarrow> 'a::{zero,plus} WorldModel \<Rightarrow>
     py_error + 'a WorldModel" where
  "update_cache_context xxh64 latent is_init_infer self =
     (if context_length self \<le> 2 then Inr self
      else for_each [0..<length latent] (update_cache_context_env xxh64 latent is_init_infer) self)"

subsection \<open>Memoised lookup\<close>

text \<open>The lookup of lines 1247-1265.\<close>

definition lookup_init ::
  "'a WorldModel \<Rightarrow> nat \<Rightarrow> string \<Rightarrow> py_error + 'a list KeysValues option" where
  "lookup_init self index cache_key =
     bind_r (nth_r (past_kv_cache_init_infer_envs self) index) (\<lambda>d.
       case d cache_key of
         None \<Rightarrow> Inr None
       | Some cache_index \<Rightarrow>
           bind_r (nth_r (shared_pool_init_infer self) index) (\<lambda>pool. nth_r pool cache_index))"

definition lookup_recur :: "'a WorldModel \<Rightarrow> string \<Rightarrow> 'a list KeysValues option" where
  "lookup_recur self cache_key =
     (case past_kv_cache_recurrent_infer self cache_key of
        None \<Rightarrow> None
      | Some idx \<Rightarrow> if idx < length (shared_pool_recur_infer self)
                    then shared_pool_recur_infer self ! idx else None)"

definition retrieve_matched ::
  "'a WorldModel \<Rightarrow> nat \<Rightarrow> string \<Rightarrow> py_error + 'a list KeysValues option" where
  "retrieve_matched self index cache_key =
     (if reanalyze_phase self then Inr None
      else bind_r (lookup_init self index cache_key) (\<lambda>matched_value.
             if matched_value = None then Inr (lookup_recur self cache_key)
             else Inr matched_value))"

text \<open>
  A hit (lines 1267-1272 and 846-851, which differ in the counter they bump): the matched
  cache is copied into the working pool, and the copy's slot and the matched size are
  appended.
\<close>

definition append_hit :: "'a list KeysValues \<Rightarrow> 'a::zero WorldModel \<Rightarrow> py_error + 'a WorldModel" where
  "append_hit matched_value self =
     bind_r (custom_copy_kv_cache_to_shared_wm matched_value self) (\<lambda>(r, self').
     bind_r (size_kv matched_value) (\<lambda>sz.
     Inr (self'\<lparr>keys_values_wm_list := keys_values_wm_list self' @ [r],
               keys_values_wm_size_list := keys_values_wm_size_list self' @ [sz]\<rparr>)))"

text \<open>
  A miss (lines 1273-1295 and 852-860): \<^verbatim>\<open>keys_values_wm_single_env\<close> is bound to a
  fresh empty cache, so the entries of the list that named the old object keep it to
  themselves; the forward pass runs on the new one, which is appended with size 1.
\<close>

definition detach :: "'a WorldModel \<Rightarrow> 'a kv_ref \<Rightarrow> 'a kv_ref" where
  "detach self r = (case r of Single_env \<Rightarrow> Detached (keys_values_wm_single_env self) | _ \<Rightarrow> r)"

definition fresh_single_env :: "'a::zero WorldModel \<Rightarrow> 'a WorldModel" where
  "fresh_single_env self =
     self\<lparr>keys_values_wm_list := map (detach self) (keys_values_wm_list self),
          keys_values_wm_single_env := new_KeysValues (context_length self) (num_layers self)\<rparr>"

definition append_miss ::
  "('a::zero, 'v, 'o) forward_fn \<Rightarrow> latent \<Rightarrow> py_error + int \<Rightarrow> 'a WorldModel \<Rightarrow>
     py_error + 'a WorldModel" where
  "append_miss fwd state_single_env sp self =
     bind_r sp (\<lambda>start_pos_adjusted.
     bind_r (forward_single fwd (Obs_embeddings [state_single_env]) (Pos_int start_pos_adjusted)
               (fresh_single_env self)) (\<lambda>(out, self').
     Inr (self'\<lparr>keys_values_wm_list := keys_values_wm_list self' @ [Single_env],
               keys_values_wm_size_list := keys_values_wm_size_list self' @ [1]\<rparr>)))"

definition retrieve_or_generate_step ::
  "(latent \<Rightarrow> 64 word) \<Rightarrow> ('a::zero, 'v, 'o) forward_fn \<Rightarrow> latent list \<Rightarrow> start_pos \<Rightarrow> nat \<Rightarrow>
     'a WorldModel \<Rightarrow> py_error + 'a WorldModel" where
  "retrieve_or_generate_step xxh64 fwd latent start_pos index self0 =
     (let self = self0\<lparr>total_query_count := total_query_count self0 + 1\<rparr> in
      bind_r (nth_r latent index) (\<lambda>state_single_env.
      bind_r (retrieve_matched self index (hash_state xxh64 state_single_env)) (\<lambda>matched_value.
        case matched_value of
          Some kv \<Rightarrow> append_hit kv (self\<lparr>hit_count := hit_count self + 1\<rparr>)
        | None \<Rightarrow>
            append_miss fwd state_single_env
              (if reanalyze_phase self then start_pos_reanalyze start_pos index
               else start_pos_item start_pos index) self)))"

definition retrieve_or_generate_kvcache ::
  "(latent \<Rightarrow> 64 word) \<Rightarrow> ('a::zero, 'v, 'o) forward_fn \<Rightarrow> latent list \<Rightarrow> nat \<Rightarrow> start_pos \<Rightarrow>
     'a WorldModel \<Rightarrow> py_error + (nat list \<times> 'a WorldModel)" where
  "retrieve_or_generate_kvcache xxh64 fwd latent ready_env_num start_pos self =
     bind_r (for_each [0..<ready_env_num] (retrieve_or_generate_step xxh64 fwd latent start_pos) self)
       (\<lambda>self'. Inr (keys_values_wm_size_list self', self'))"

subsection \<open>Initial inference\<close>

text \<open>
  The first-step test of lines 809-812. Under a discrete action space the actions are
  integers and \<^verbatim>\<open>max\<close> is taken over them (an array there is outside the input type and
  is given \<^verbatim>\<open>TypeError\<close>); under a continuous one the first action is an array unless the
  episode starts. \<^verbatim>\<open>None\<close> for the actions is not subscriptable.
\<close>

definition scalar_of :: "'v action \<Rightarrow> py_error + int" where
  "scalar_of a = (case a of Scalar n \<Rightarrow> Inr n | NdArray _ \<Rightarrow> Inl TypeError)"

definition first_step_flag :: "'a WorldModel \<Rightarrow> 'v action list option \<Rightarrow> py_error + bool" where
  "first_step_flag self batch_action =
     (case batch_action of
        None \<Rightarrow> Inl TypeError
      | Some acts \<Rightarrow>
          if continuous_action_space self then
            (case acts of [] \<Rightarrow> Inl IndexError
             | a # _ \<Rightarrow> Inr (case a of Scalar _ \<Rightarrow> True | NdArray _ \<Rightarrow> False))
          else
            bind_r (map_r scalar_of acts) (\<lambda>ns.
              case ns of [] \<Rightarrow> Inl ValueError | m # ms \<Rightarrow> Inr (fold max ms m = - 1)))"

text \<open>The body of the loop over the ready environments (lines 830-860).\<close>

definition root_lookup_step ::
  "(latent \<Rightarrow> 64 word) \<Rightarrow> ('a::zero, 'v, 'o) forward_fn \<Rightarrow> latent list \<Rightarrow> start_pos \<Rightarrow> nat \<Rightarrow>
     'a WorldModel \<Rightarrow> py_error + 'a WorldModel" where
  "root_lookup_step xxh64 fwd last_obs_embeddings start_pos i self0 =
     bind_r (nth_r last_obs_embeddings i) (\<lambda>state_single_env.
     bind_r (lookup_init self0 i (hash_state xxh64 state_single_env)) (\<lambda>matched_value.
       let self = self0\<lparr>root_total_query_cnt := root_total_query_cnt self0 + 1\<rparr> in
       case matched_value of
         Some kv \<Rightarrow> append_hit kv (self\<lparr>root_hit_cnt := root_hit_cnt self + 1\<rparr>)
       | None \<Rightarrow> append_miss fwd state_single_env (start_pos_item start_pos i) self))"

text \<open>
  \<^verbatim>\<open>wm_forward_for_initial_infererence\<close>. In the training branch the reshaping of the
  embeddings, of the actions and of the logits is left out: it touches no cache, and the
  forward pass runs there without one.
\<close>

definition continue_episode ::
  "(latent \<Rightarrow> 64 word) \<Rightarrow> ('a::{zero,plus}, 'v, 'o) forward_fn \<Rightarrow> latent list \<Rightarrow>
     'v action list \<Rightarrow> latent list \<Rightarrow> start_pos \<Rightarrow> 'a WorldModel \<Rightarrow>
     py_error + ('o WorldModelOutput \<times> 'a WorldModel)" where
  "continue_episode xxh64 fwd last_obs_embeddings batch_action current_obs_embeddings start_pos self =
     (let ready_env_num = length current_obs_embeddings in
      bind_r (for_each [0..<ready_env_num] (root_lookup_step xxh64 fwd last_obs_embeddings start_pos)
                (self\<lparr>keys_values_wm_list := [], keys_values_wm_size_list := []\<rparr>)) (\<lambda>self1.
      bind_r (trim_and_pad_kv_cache True self1) (\<lambda>(sizes, self2).
      bind_r (start_pos_take start_pos ready_env_num) (\<lambda>start_pos'.
      bind_r (forward_wm fwd (Act_tokens (take ready_env_num batch_action)) True start_pos' None
                (self2\<lparr>keys_values_wm_size_list_current := Some sizes\<rparr>)) (\<lambda>(out_act, self3).
      bind_r (forward_wm fwd (Obs_embeddings current_obs_embeddings) True start_pos' None self3)
        (\<lambda>(outputs_wm, self4).
      bind_r (update_cache_context xxh64 current_obs_embeddings True self4) (\<lambda>self5.
      Inr (outputs_wm, self5))))))))"

definition wm_forward_for_initial_infererence ::
  "(latent \<Rightarrow> 64 word) \<Rightarrow> ('a::{zero,plus}, 'v, 'o) forward_fn \<Rightarrow> latent list \<Rightarrow>
     'v action list option \<Rightarrow> latent list option \<Rightarrow> start_pos \<Rightarrow> 'a WorldModel \<Rightarrow>
     py_error + ('o WorldModelOutput \<times> 'a WorldModel)" where
  "wm_forward_for_initial_infererence xxh64 fwd last_obs_embeddings batch_action
       current_obs_embeddings start_pos self =
     (case current_obs_embeddings of
        Some current \<Rightarrow>
          if length last_obs_embeddings \<le> env_num self then
            bind_r (first_step_flag self batch_action) (\<lambda>flag.
              if flag then
                bind_r (forward_wm fwd (Obs_embeddings current) True start_pos None
                          (self\<lparr>keys_values_wm :=
                                  generate_empty_keys_values (num_layers self) (length current)
                                    (context_length self)\<rparr>)) (\<lambda>(outputs_wm, self1).
                bind_r (update_cache_context xxh64 current True self1) (\<lambda>self2.
                Inr (outputs_wm, self2)))
              else
                continue_episode xxh64 fwd last_obs_embeddings
                  (case batch_action of Some acts \<Rightarrow> acts | None \<Rightarrow> []) current start_pos self)
          else Inl UnboundLocalError
      | None \<Rightarrow>
          (case batch_action of
             Some acts \<Rightarrow>
               bind_r (fwd self (Obs_embeddings_and_act_tokens last_obs_embeddings acts) None True
                         start_pos None) (\<lambda>(outputs_wm, kv). Inr (outputs_wm, self))
           | None \<Rightarrow> Inl UnboundLocalError))"

text \<open>
  \<^verbatim>\<open>reset_for_initial_inference\<close>. The tokenizer is not among the sources:
  \<^verbatim>\<open>encode_to_obs_embeddings\<close> is the parameter \<open>encode\<close>, from a batch of observations
  to one latent per row.
\<close>

record ('b, 'v) obs_act_dict =
  obs :: 'b
  action :: "'v action list option"
  current_obs :: "'b option"

definition reset_for_initial_inference ::
  "(latent \<Rightarrow> 64 word) \<Rightarrow> ('a::{zero,plus}, 'v, 'o) forward_fn \<Rightarrow> ('b \<Rightarrow> latent list) \<Rightarrow>
     ('b, 'v) obs_act_dict \<Rightarrow> start_pos \<Rightarrow> 'a WorldModel \<Rightarrow>
     py_error + (('o WorldModelOutput \<times> latent list) \<times> 'a WorldModel)" where
  "reset_for_initial_inference xxh64 fwd encode d start_pos self =
     (let obs_embeddings = encode (obs d) in
      case current_obs d of
        Some batch_current_obs \<Rightarrow>
          let current_obs_embeddings = encode batch_current_obs in
          bind_r (wm_forward_for_initial_infererence xxh64 fwd obs_embeddings (action d)
                    (Some current_obs_embeddings) start_pos
                    (self\<lparr>latent_state := Some current_obs_embeddings\<rparr>)) (\<lambda>(outputs_wm, self').
          Inr ((outputs_wm, current_obs_embeddings), self'))
      | None \<Rightarrow>
          bind_r (wm_forward_for_initial_infererence xxh64 fwd obs_embeddings (action d) None
                    start_pos (self\<lparr>latent_state := Some obs_embeddings\<rparr>)) (\<lambda>(outputs_wm, self').
          Inr ((outputs_wm, obs_embeddings), self')))"

definition forward_initial_inference ::
  "(latent \<Rightarrow> 64 word) \<Rightarrow> ('a::{zero,plus}, 'v, 'o) forward_fn \<Rightarrow> ('b \<Rightarrow> latent list) \<Rightarrow>
     ('b, 'v) obs_act_dict \<Rightarrow> start_pos \<Rightarrow> 'a WorldModel \<Rightarrow>
     py_error + (('o WorldModelOutput \<times> latent list) \<times> 'a WorldModel)" where
  "forward_initial_inference xxh64 fwd encode d start_pos self =
     bind_r (reset_for_initial_inference xxh64 fwd encode d start_pos self) (\<lambda>(res, self').
     Inr (res, self'\<lparr>past_kv_cache_recurrent_infer := Map.empty\<rparr>))"

subsection \<open>Recurrent inference\<close>

text \<open>
  \<^verbatim>\<open>torch.cat(latent_state_list, dim=1)\<close> over the one or two tokens the loop collects:
  row by row, and only for batches of one length. A model without observation tokens
  collects none, and \<^verbatim>\<open>torch.cat\<close> of the empty list raises.
\<close>

definition cat_tokens :: "latent list list \<Rightarrow> py_error + latent list" where
  "cat_tokens ts =
     (case ts of
        [] \<Rightarrow> Inl RuntimeError
      | [t] \<Rightarrow> Inr t
      | t # u # _ \<Rightarrow> if length t = length u then Inr (map2 (@) t u) else Inl RuntimeError)"

definition forward_recurrent_inference ::
  "(latent \<Rightarrow> 64 word) \<Rightarrow> ('a::{zero,plus}, 'v, 'o) forward_fn \<Rightarrow>
     (latent list \<times> 'v action list) list \<Rightarrow> int list \<Rightarrow> start_pos \<Rightarrow> 'a WorldModel \<Rightarrow>
     py_error + (('o WorldModelOutput \<times> latent list) \<times> 'a WorldModel)" where
  "forward_recurrent_inference xxh64 fwd state_action_history search_depth start_pos self =
     (case rev state_action_history of
        [] \<Rightarrow> Inl IndexError
      | (latest_state, act) # _ \<Rightarrow>
          bind_r (retrieve_or_generate_kvcache xxh64 fwd latest_state (length latest_state) start_pos
                    (self\<lparr>keys_values_wm_list := [], keys_values_wm_size_list := []\<rparr>))
            (\<lambda>(sizes0, self1).
          bind_r (trim_and_pad_kv_cache False self1) (\<lambda>(sizes, self2).
          bind_r (forward_wm fwd (Act_tokens act) False start_pos (Some search_depth)
                    (self2\<lparr>keys_values_wm_size_list_current := Some sizes\<rparr>)) (\<lambda>(out0, self3).
          if num_observations_tokens self3 = 0 then Inl RuntimeError
          else
          bind_r (forward_wm fwd (Obs_embeddings (logits_observations out0)) False start_pos
                    (Some search_depth)
                    (self3\<lparr>keys_values_wm_size_list_current := Some (map Suc sizes)\<rparr>))
            (\<lambda>(outputs_wm, self4).
          bind_r (case latent_state self4 of None \<Rightarrow> Inl AttributeError | Some _ \<Rightarrow> Inr ()) (\<lambda>_.
          bind_r (cat_tokens
                    (if 1 < num_observations_tokens self4
                     then [logits_observations out0, logits_observations outputs_wm]
                     else [logits_observations out0])) (\<lambda>latent.
          bind_r (update_cache_context xxh64 latent False
                    (self4\<lparr>keys_values_wm_size_list_current := Some (map Suc (map Suc sizes)),
                           latent_state := Some latent\<rparr>)) (\<lambda>self5.
          Inr ((outputs_wm, latent), self5)))))))))"

subsection \<open>Clearing, and the state a new model starts from\<close>

definition clear_caches :: "'a WorldModel \<Rightarrow> 'a WorldModel" where
  "clear_caches self =
     self\<lparr>past_kv_cache_init_infer_envs := map (\<lambda>_. Map.empty) (past_kv_cache_init_infer_envs self),
          past_kv_cache_recurrent_infer := Map.empty,
          keys_values_wm_list := []\<rparr>"

text \<open>
  The cache part of \<^verbatim>\<open>__init__\<close> (lines 101-136 and 328-360), from the
  configuration: the recurrent pool has \<^verbatim>\<open>num_simulations * env_num\<close> slots, each
  environment's init pool 2, the working pool \<^verbatim>\<open>env_num\<close>; every cursor starts at 0 and
  every index is empty.
\<close>

definition init_caches ::
  "nat \<Rightarrow> nat \<Rightarrow> nat \<Rightarrow> bool \<Rightarrow> bool \<Rightarrow> nat \<Rightarrow> nat \<Rightarrow> 'a::zero WorldModel" where
  "init_caches cl layers envs rotary continuous obs_tokens num_simulations =
     \<lparr>context_length = cl, num_layers = layers, env_num = envs, rotary_emb = rotary,
      continuous_action_space = continuous, num_observations_tokens = obs_tokens,
      shared_pool_size = num_simulations * envs,
      shared_pool_recur_infer = replicate (num_simulations * envs) None,
      shared_pool_index = 0,
      shared_pool_size_init = 2,
      shared_pool_init_infer = replicate envs (replicate 2 None),
      shared_pool_index_init_envs = replicate envs 0,
      shared_pool_size_wm = envs,
      shared_pool_wm = replicate envs None,
      shared_pool_index_wm = 0,
      reanalyze_phase = False,
      past_kv_cache_recurrent_infer = Map.empty,
      past_kv_cache_init_infer_envs = replicate envs Map.empty,
      keys_values_wm_list = [],
      keys_values_wm_size_list = [],
      keys_values_wm_size_list_current = None,
      keys_values_wm = generate_empty_keys_values layers envs cl,
      keys_values_wm_single_env = new_KeysValues cl layers,
      latent_state = None,
      pos_emb_diff_k = None,
      pos_emb_diff_v = None,
      hit_count = 0, total_query_count = 0, root_hit_cnt = 0, root_total_query_cnt = 0\<rparr>"

text \<open>
  \<^verbatim>\<open>__init__\<close> as far as the cache engine and the table of positional deltas go, in
  the order of the source. \<open>created\<close> are the weights the modules have when they are
  constructed (the transformer at line 48, \<^verbatim>\<open>pos_emb\<close> at line 68). Unless the model uses
  rotary embeddings, \<^verbatim>\<open>precompute_pos_emb_diff_kv\<close> runs on them at once (line 69).
  Then \<^verbatim>\<open>self.apply(init_weights)\<close> (line 98) draws every \<^verbatim>\<open>nn.Embedding\<close> and
  \<^verbatim>\<open>nn.Linear\<close> weight of the model anew, \<^verbatim>\<open>pos_emb.weight\<close> and the projections
  among them: the draw is the parameter \<open>init_weights\<close>. The table is not computed again,
  there or anywhere else in the sources. The caches are set up last. The result is the
  weights the model has after construction, and the state of the cache engine.
\<close>

definition init_WorldModel ::
  "('e, 'a::{zero,minus}) Weights \<Rightarrow> (('e, 'a) Weights \<Rightarrow> ('e, 'a) Weights) \<Rightarrow>
     nat \<Rightarrow> nat \<Rightarrow> nat \<Rightarrow> bool \<Rightarrow> bool \<Rightarrow> nat \<Rightarrow> nat \<Rightarrow>
     py_error + (('e, 'a) Weights \<times> 'a WorldModel)" where
  "init_WorldModel created init_weights cl layers envs rotary continuous obs_tokens num_simulations =
     bind_r (if \<not> rotary
             then precompute_pos_emb_diff_kv (attn_proj created) (pos_emb_weight created)
                    (init_caches cl layers envs rotary continuous obs_tokens num_simulations)
             else Inr (init_caches cl layers envs rotary continuous obs_tokens num_simulations))
       (\<lambda>self. Inr (init_weights created, self))"

subsection \<open>The three stores under one name\<close>

text \<open>
  The spec's \<^verbatim>\<open>store(pool, src_context)\<close>: the store of the named pool, with the value
  the Python function returns. Two of the functions return an integer, the third the
  ContextCache object of the slot. \<open>cursor\<close>, \<open>capacity\<close> and \<open>slots\<close> read the
  fields of the named pool; \<open>store_seq\<close> is a sequence of stores into one pool.
\<close>

datatype pool_id = Init_pool nat | Recur_pool | Wm_pool

datatype 'a py_value = Py_int nat | Py_KeysValues "'a kv_ref"

definition store ::
  "pool_id \<Rightarrow> 'a::zero list KeysValues \<Rightarrow> 'a WorldModel \<Rightarrow> py_error + ('a py_value \<times> 'a WorldModel)" where
  "store pool src_kv self =
     (case pool of
        Init_pool env_id \<Rightarrow>
          bind_r (custom_copy_kv_cache_to_shared_init_envs src_kv env_id self)
            (\<lambda>(index, self'). Inr (Py_int index, self'))
      | Recur_pool \<Rightarrow>
          bind_r (custom_copy_kv_cache_to_shared_recur src_kv self)
            (\<lambda>(index, self'). Inr (Py_int index, self'))
      | Wm_pool \<Rightarrow>
          bind_r (custom_copy_kv_cache_to_shared_wm src_kv self)
            (\<lambda>(dst_kv, self'). Inr (Py_KeysValues dst_kv, self')))"

definition cursor :: "pool_id \<Rightarrow> 'a WorldModel \<Rightarrow> nat" where
  "cursor pool self =
     (case pool of
        Init_pool env_id \<Rightarrow> shared_pool_index_init_envs self ! env_id
      | Recur_pool \<Rightarrow> shared_pool_index self
      | Wm_pool \<Rightarrow> shared_pool_index_wm self)"

definition capacity :: "pool_id \<Rightarrow> 'a WorldModel \<Rightarrow> nat" where
  "capacity pool self =
     (case pool of
        Init_pool env_id \<Rightarrow> shared_pool_size_init self
      | Recur_pool \<Rightarrow> shared_pool_size self
      | Wm_pool \<Rightarrow> shared_pool_size_wm self)"

definition slots :: "pool_id \<Rightarrow> 'a WorldModel \<Rightarrow> 'a list KeysValues option list" where
  "slots pool self =
     (case pool of
        Init_pool env_id \<Rightarrow> shared_pool_init_infer self ! env_id
      | Recur_pool \<Rightarrow> shared_pool_recur_infer self
      | Wm_pool \<Rightarrow> shared_pool_wm self)"

fun store_seq ::
  "pool_id \<Rightarrow> 'a::zero list KeysValues list \<Rightarrow> 'a WorldModel \<Rightarrow>
     py_error + ('a py_value list \<times> 'a WorldModel)" where
  "store_seq pool [] self = Inr ([], self)"
| "store_seq pool (src_kv # rest) self =
     bind_r (store pool src_kv self) (\<lambda>(r, self').
     bind_r (store_seq pool rest self') (\<lambda>(rs, self''). Inr (r # rs, self'')))"

text \<open>What a store returns for the slot under cursor \<open>c\<close>.\<close>

definition returned_for :: "pool_id \<Rightarrow> nat \<Rightarrow> 'a py_value" where
  "returned_for pool c = (case pool of Wm_pool \<Rightarrow> Py_KeysValues (Wm_slot c) | _ \<Rightarrow> Py_int c)"

subsection \<open>A small model to run the definitions on\<close>

text \<open>
  Two environments, one layer, context length 4, absolute positional embeddings, two
  simulations per search; cache entries are integers.
\<close>

definition example_model :: "int WorldModel" where
  "example_model = init_caches 4 1 2 False False 1 2"

definition example_context :: "int list KeysValues" where
  "example_context = new_KeysValues 4 1"

text \<open>
  A positional embedding of four positions, with a key projection that adds the layer's
  number and a value projection that doubles.
\<close>

definition example_attn :: "nat \<Rightarrow> attn_type \<Rightarrow> int \<Rightarrow> int" where
  "example_attn layer ty e = (case ty of Key \<Rightarrow> e + int layer | Value \<Rightarrow> 2 * e)"

definition example_weight :: "int list" where
  "example_weight = [10, 11, 13, 16]"

text \<open>
  The weights the modules of the small model are created with, and a draw of
  \<^verbatim>\<open>init_weights\<close>: another embedding table, a key projection that doubles and a value
  projection that adds one.
\<close>

definition example_created :: "(int, int) Weights" where
  "example_created = \<lparr>pos_emb_weight = example_weight, attn_proj = example_attn\<rparr>"

definition example_init_weights :: "(int, int) Weights \<Rightarrow> (int, int) Weights" where
  "example_init_weights created =
     \<lparr>pos_emb_weight = [3, 1, 4, 1],
      attn_proj = (\<lambda>layer ty e. case ty of Key \<Rightarrow> 2 * e | Value \<Rightarrow> e + 1)\<rparr>"

subsection \<open>The positional delta in the words of the specification\<close>

text \<open>
  The difference between the transformed positional embedding at the offsets
  \<open>[0, context_length - 3)\<close> and at the offsets \<open>[2, context_length - 1)\<close>, position by
  position, for one layer and for the key or the value projection.
\<close>

definition pos_delta ::
  "(nat \<Rightarrow> attn_type \<Rightarrow> 'e \<Rightarrow> 'a::minus) \<Rightarrow> 'e list \<Rightarrow> nat \<Rightarrow> nat \<Rightarrow> attn_type \<Rightarrow> 'a list" where
  "pos_delta attn weight cl layer ty =
     map (\<lambda>j. attn layer ty (weight ! j) - attn layer ty (weight ! (j + 2))) [0..<cl - 3]"

text \<open>What the window shrink reads of the state.\<close>

definition positional_config ::
  "'a WorldModel \<Rightarrow> nat \<times> bool \<times> 'a diff_table list option \<times> 'a diff_table list option" where
  "positional_config self =
     (context_length self, rotary_emb self, pos_emb_diff_k self, pos_emb_diff_v self)"

text \<open>
  For the proofs about the loop over the layers: what the step at another layer keeps of
  layer \<open>m\<close>, and what the step at a layer establishes there, given how the layer is
  read (\<open>rd\<close>).
\<close>

definition layer_frame :: "nat \<Rightarrow> 'a WorldModel \<Rightarrow> 'a WorldModel \<Rightarrow> bool" where
  "layer_frame m a b \<longleftrightarrow>
     keys_values_wm b ! m = keys_values_wm a ! m \<and>
     length (keys_values_wm b) = length (keys_values_wm a) \<and>
     keys_values_wm_single_env b ! m = keys_values_wm_single_env a ! m \<and>
     length (keys_values_wm_single_env b) = length (keys_values_wm_single_env a) \<and>
     positional_config b = positional_config a \<and>
     keys_values_wm_size_list_current b = keys_values_wm_size_list_current a"

definition layer_post ::
  "(nat \<Rightarrow> 'a::{zero,plus} WorldModel \<Rightarrow> py_error + 'a list KVCache) \<Rightarrow> nat \<Rightarrow>
     'a WorldModel \<Rightarrow> 'a WorldModel \<Rightarrow> bool" where
  "layer_post rd layer a b \<longleftrightarrow>
     (\<exists>l. rd layer a = Inr l \<and> layer < length (keys_values_wm_single_env b) \<and>
        (if context_length a - 1 \<le> size_c (k_cache l)
         then \<exists>k v. shrink_window a layer (cache (k_cache l)) (cache (v_cache l))
                      = Inr (k, v, keys_values_wm_single_env b ! layer)
         else keys_values_wm_single_env b ! layer = l))"

text \<open>
  The small model with its table of positional deltas and a batched cache whose single
  layer has reached size 3.
\<close>

definition example_shrink_model :: "int WorldModel" where
  "example_shrink_model =
     example_model\<lparr>
       pos_emb_diff_k := Some [[(2, 3) \<mapsto> [- 3]]],
       pos_emb_diff_v := Some [[(2, 3) \<mapsto> [- 6]]],
       keys_values_wm :=
         [\<lparr>k_cache = \<lparr>cache = [[1, 2, 3, 0], [4, 5, 6, 0]], size_c = 3\<rparr>,
           v_cache = \<lparr>cache = [[5, 6, 7, 0], [8, 9, 10, 0]], size_c = 3\<rparr>\<rparr>]\<rparr>"

text \<open>
  For the proofs about the loop of trim-and-pad over the layers: what the step at another
  layer keeps of a layer, and what the step at the layer leaves there.
\<close>

definition tp_frame :: "nat \<Rightarrow> 'a WorldModel \<Rightarrow> 'a WorldModel \<Rightarrow> bool" where
  "tp_frame layer a b \<longleftrightarrow>
     keys_values_wm b ! layer = keys_values_wm a ! layer \<and>
     length (keys_values_wm b) = length (keys_values_wm a) \<and>
     keys_values_wm_list b = keys_values_wm_list a \<and>
     keys_values_wm_size_list b = keys_values_wm_size_list a \<and>
     shared_pool_wm b = shared_pool_wm a \<and>
     keys_values_wm_single_env b = keys_values_wm_single_env a"

definition tp_post :: "nat \<Rightarrow> nat \<Rightarrow> 'a::zero WorldModel \<Rightarrow> 'a WorldModel \<Rightarrow> bool" where
  "tp_post max_size layer a b \<longleftrightarrow>
     (\<exists>kvs. map_r (trim_and_pad_item a max_size layer) (enumerate 0 (keys_values_wm_list a)) = Inr kvs \<and>
        layer < length (keys_values_wm b) \<and>
        keys_values_wm b ! layer
          = \<lparr>k_cache = \<lparr>cache = map fst kvs, size_c = max_size\<rparr>,
             v_cache = \<lparr>cache = map snd kvs, size_c = max_size\<rparr>\<rparr> \<and>
        keys_values_wm_size_list b = keys_values_wm_size_list a)"

text \<open>
  The small model before a batched forward pass: the caches of two environments, of
  sizes 1 and 2.
\<close>

definition example_batch_model :: "int WorldModel" where
  "example_batch_model =
     example_model\<lparr>
       keys_values_wm_list :=
         [Detached [\<lparr>k_cache = \<lparr>cache = [7, 0, 0, 0], size_c = 1\<rparr>,
                     v_cache = \<lparr>cache = [8, 0, 0, 0], size_c = 1\<rparr>\<rparr>],
          Detached [\<lparr>k_cache = \<lparr>cache = [1, 2, 0, 0], size_c = 2\<rparr>,
                     v_cache = \<lparr>cache = [3, 4, 0, 0], size_c = 2\<rparr>\<rparr>]],
       keys_values_wm_size_list := [1, 2]\<rparr>"

text \<open>
  What a hit leaves in the state: the slot under the cursor of the working pool is
  appended to the list of caches and the matched cache's size to the list of sizes, and
  the hit is counted. The slot holds a cache, and that cache is the matched one whenever
  the buffers it is copied into have its shape: those of the cache the slot held, or,
  for a slot still empty, buffers allocated at the length of the matched cache's first
  key buffer.
\<close>

definition buffer_lengths :: "'a list KeysValues \<Rightarrow> (nat \<times> nat) list" where
  "buffer_lengths kv = map (\<lambda>l. (length (cache (k_cache l)), length (cache (v_cache l)))) kv"

definition fits :: "'a list KeysValues \<Rightarrow> 'a list KeysValues option \<Rightarrow> bool" where
  "fits kv slot =
     (case slot of
        None \<Rightarrow>
          buffer_lengths kv
            = replicate (length kv) (length (cache (k_cache (hd kv))), length (cache (k_cache (hd kv))))
      | Some old \<Rightarrow> buffer_lengths kv = buffer_lengths old)"

definition hit_result :: "'a list KeysValues \<Rightarrow> 'a WorldModel \<Rightarrow> 'a WorldModel \<Rightarrow> bool" where
  "hit_result kv self self' \<longleftrightarrow>
     keys_values_wm_list self' = keys_values_wm_list self @ [Wm_slot (shared_pool_index_wm self)] \<and>
     shared_pool_index_wm self < length (shared_pool_wm self') \<and>
     (\<exists>dst. shared_pool_wm self' ! shared_pool_index_wm self = Some dst \<and>
        (fits kv (shared_pool_wm self ! shared_pool_index_wm self) \<longrightarrow> dst = kv)) \<and>
     (\<exists>l ls. kv = l # ls \<and>
        keys_values_wm_size_list self' = keys_values_wm_size_list self @ [size_c (k_cache l)]) \<and>
     hit_count self' = hit_count self + 1"

text \<open>
  What a miss leaves in the state: the forward pass has run on a fresh empty cache, which
  is now \<open>keys_values_wm_single_env\<close> and is appended to the list of caches, with the
  size 1 appended to the list of sizes; no hit is counted.
\<close>

definition miss_result ::
  "('a::zero, 'v, 'o) forward_fn \<Rightarrow> latent \<Rightarrow> py_error + int \<Rightarrow>
     'a WorldModel \<Rightarrow> 'a WorldModel \<Rightarrow> bool" where
  "miss_result fwd state_single_env sp self self' \<longleftrightarrow>
     keys_values_wm_list self' = map (detach self) (keys_values_wm_list self) @ [Single_env] \<and>
     keys_values_wm_size_list self' = keys_values_wm_size_list self @ [1] \<and>
     hit_count self' = hit_count self \<and>
     (\<exists>start_pos_adjusted out kv'.
        sp = Inr start_pos_adjusted \<and>
        fwd (fresh_single_env self)
            (Obs_embeddings [state_single_env])
            (Some (unsqueeze_kv (new_KeysValues (context_length self) (num_layers self))))
            True (Pos_int start_pos_adjusted) None = Inr (out, kv') \<and>
        squeeze_kv kv' = Inr (keys_values_wm_single_env self'))"

text \<open>
  A stand-in for the digest (the number of bytes) and for the forward pass: it writes one
  position into every row of every layer at the cache's size, and returns its input
  latents as the observation logits.
\<close>

definition example_xxh64 :: "latent \<Rightarrow> 64 word" where
  "example_xxh64 bs = word_of_nat (length bs)"

definition example_append :: "int list list KVCache \<Rightarrow> int list list KVCache" where
  "example_append l =
     \<lparr>k_cache = \<lparr>cache = map (\<lambda>row. row[size_c (k_cache l) := 1]) (cache (k_cache l)),
                 size_c = size_c (k_cache l) + 1\<rparr>,
      v_cache = \<lparr>cache = map (\<lambda>row. row[size_c (v_cache l) := 2]) (cache (v_cache l)),
                 size_c = size_c (v_cache l) + 1\<rparr>\<rparr>"

definition example_fwd :: "(int, unit, unit) forward_fn" where
  "example_fwd self inp past is_init_infer sp search_depth =
     Inr (\<lparr>logits_observations =
             (case inp of
                Obs_embeddings ls \<Rightarrow> ls
              | Act_tokens acts \<Rightarrow> map (\<lambda>_. [1]) acts
              | Obs_embeddings_and_act_tokens ls acts \<Rightarrow> ls),
           other_logits = ()\<rparr>,
          (case past of None \<Rightarrow> [] | Some kv \<Rightarrow> map example_append kv))"

text \<open>
  The small model after the root cache of the latent \<open>[1]\<close> has been stored for
  environment 0.
\<close>

definition example_hit_model :: "int WorldModel" where
  "example_hit_model =
     example_model\<lparr>
       past_kv_cache_init_infer_envs := [[''0000000000000001'' \<mapsto> 0], Map.empty],
       shared_pool_init_infer :=
         [[Some [\<lparr>k_cache = \<lparr>cache = [1, 1, 0, 0], size_c = 2\<rparr>,
                  v_cache = \<lparr>cache = [2, 2, 0, 0], size_c = 2\<rparr>\<rparr>], None],
          [None, None]],
       shared_pool_index_init_envs := [1, 0]\<rparr>"

text \<open>
  The small model after a search has stored the cache of the latent \<open>[1]\<close> in slot 1 of
  the recurrent pool, and the small model with both entries.
\<close>

definition example_recur_model :: "int WorldModel" where
  "example_recur_model =
     example_model\<lparr>
       past_kv_cache_recurrent_infer := [''0000000000000001'' \<mapsto> 1],
       shared_pool_recur_infer :=
         [None,
          Some [\<lparr>k_cache = \<lparr>cache = [3, 3, 3, 0], size_c = 3\<rparr>,
                 v_cache = \<lparr>cache = [4, 4, 4, 0], size_c = 3\<rparr>\<rparr>],
          None, None],
       shared_pool_index := 2\<rparr>"

definition example_both_model :: "int WorldModel" where
  "example_both_model =
     example_hit_model\<lparr>
       past_kv_cache_recurrent_infer := [''0000000000000001'' \<mapsto> 1],
       shared_pool_recur_infer :=
         [None,
          Some [\<lparr>k_cache = \<lparr>cache = [3, 3, 3, 0], size_c = 3\<rparr>,
                 v_cache = \<lparr>cache = [4, 4, 4, 0], size_c = 3\<rparr>\<rparr>],
          None, None],
       shared_pool_index := 2\<rparr>"

subsection \<open>The operations under one name\<close>

text \<open>
  Of \<^verbatim>\<open>compute_loss\<close> (lines 1300-1652) the state of the cache engine sees one thing:
  under the configuration flag \<^verbatim>\<open>analysis_dormant_ratio\<close> the recurrent-phase index and
  \<^verbatim>\<open>keys_values_wm_list\<close> are cleared (lines 1323-1324 and 1414-1415). Its forward pass
  runs without a cache, and the losses it computes are no part of this state.
\<close>

definition compute_loss :: "bool \<Rightarrow> 'a WorldModel \<Rightarrow> 'a WorldModel" where
  "compute_loss analysis_dormant_ratio self =
     (if analysis_dormant_ratio
      then self\<lparr>past_kv_cache_recurrent_infer := Map.empty, keys_values_wm_list := []\<rparr>
      else self)"

text \<open>
  The operations that touch the state of the cache engine, each with its arguments: the
  three stores, \<^verbatim>\<open>forward\<close> on the batched cache, \<^verbatim>\<open>update_cache_context\<close>,
  \<^verbatim>\<open>retrieve_or_generate_kvcache\<close>, \<^verbatim>\<open>trim_and_pad_kv_cache\<close>,
  \<^verbatim>\<open>wm_forward_for_initial_infererence\<close>, \<^verbatim>\<open>reset_for_initial_inference\<close>,
  \<^verbatim>\<open>forward_initial_inference\<close>, \<^verbatim>\<open>forward_recurrent_inference\<close>,
  \<^verbatim>\<open>compute_loss\<close> and \<^verbatim>\<open>clear_caches\<close>. \<^verbatim>\<open>precompute_pos_emb_diff_kv\<close> is
  called by the constructor only. \<open>call\<close> runs one operation on a state and drops the
  value it returns; a sequence of them is a loop of \<open>call\<close> over the list.
\<close>

datatype ('a, 'b, 'v) call =
    Store pool_id "'a list KeysValues"
  | Forward "'v fwd_input" bool start_pos "int list option"
  | Update_cache_context "latent list" bool
  | Retrieve_or_generate_kvcache "latent list" nat start_pos
  | Trim_and_pad_kv_cache bool
  | Wm_forward_for_initial_infererence "latent list" "'v action list option" "latent list option"
      start_pos
  | Reset_for_initial_inference "('b, 'v) obs_act_dict" start_pos
  | Forward_initial_inference "('b, 'v) obs_act_dict" start_pos
  | Forward_recurrent_inference "(latent list \<times> 'v action list) list" "int list" start_pos
  | Compute_loss bool
  | Clear_caches

definition call ::
  "(latent \<Rightarrow> 64 word) \<Rightarrow> ('a::{zero,plus}, 'v, 'o) forward_fn \<Rightarrow> ('b \<Rightarrow> latent list) \<Rightarrow>
     ('a, 'b, 'v) call \<Rightarrow> 'a WorldModel \<Rightarrow> py_error + 'a WorldModel" where
  "call xxh64 fwd encode c self =
     (case c of
        Store pool src_kv \<Rightarrow> bind_r (store pool src_kv self) (\<lambda>(r, self'). Inr self')
      | Forward inp is_init_infer sp search_depth \<Rightarrow>
          bind_r (forward_wm fwd inp is_init_infer sp search_depth self) (\<lambda>(out, self'). Inr self')
      | Update_cache_context latent is_init_infer \<Rightarrow>
          update_cache_context xxh64 latent is_init_infer self
      | Retrieve_or_generate_kvcache latent ready_env_num sp \<Rightarrow>
          bind_r (retrieve_or_generate_kvcache xxh64 fwd latent ready_env_num sp self)
            (\<lambda>(sizes, self'). Inr self')
      | Trim_and_pad_kv_cache is_init_infer \<Rightarrow>
          bind_r (trim_and_pad_kv_cache is_init_infer self) (\<lambda>(sizes, self'). Inr self')
      | Wm_forward_for_initial_infererence last_obs_embeddings batch_action current_obs_embeddings sp \<Rightarrow>
          bind_r (wm_forward_for_initial_infererence xxh64 fwd last_obs_embeddings batch_action
                    current_obs_embeddings sp self) (\<lambda>(out, self'). Inr self')
      | Reset_for_initial_inference d sp \<Rightarrow>
          bind_r (reset_for_initial_inference xxh64 fwd encode d sp self) (\<lambda>(res, self'). Inr self')
      | Forward_initial_inference d sp \<Rightarrow>
          bind_r (forward_initial_inference xxh64 fwd encode d sp self) (\<lambda>(res, self'). Inr self')
      | Forward_recurrent_inference history search_depth sp \<Rightarrow>
          bind_r (forward_recurrent_inference xxh64 fwd history search_depth sp self)
            (\<lambda>(res, self'). Inr self')
      | Compute_loss analysis_dormant_ratio \<Rightarrow> Inr (compute_loss analysis_dormant_ratio self)
      | Clear_caches \<Rightarrow> Inr (clear_caches self))"

subsection \<open>The invariant of the indices\<close>

text \<open>
  The part of the state the invariant reads: the two hash indices, and the capacities,
  cursors and slots of the recurrent pool and of the init pools.
\<close>

definition ring_state ::
  "'a WorldModel \<Rightarrow> (string \<rightharpoonup> nat) list \<times> (string \<rightharpoonup> nat) \<times> nat \<times> nat \<times> nat \<times> nat list \<times>
     'a list KeysValues option list \<times> 'a list KeysValues option list list" where
  "ring_state self =
     (past_kv_cache_init_infer_envs self, past_kv_cache_recurrent_infer self,
      shared_pool_size self, shared_pool_size_init self,
      shared_pool_index self, shared_pool_index_init_envs self,
      shared_pool_recur_infer self, shared_pool_init_infer self)"

text \<open>
  The invariant: every slot number recorded in an environment's init-phase index is below
  \<^verbatim>\<open>shared_pool_size_init\<close>, and every slot number recorded in the recurrent-phase index
  is below \<^verbatim>\<open>shared_pool_size\<close>. It comes with what makes it inductive: each cursor lies
  within its pool unless the capacity is 0, the recurrent pool has \<^verbatim>\<open>shared_pool_size\<close>
  slots and every init pool \<^verbatim>\<open>shared_pool_size_init\<close>, and there are as many init pools
  as init-phase indices.
\<close>

definition index_inv :: "'a WorldModel \<Rightarrow> bool" where
  "index_inv self \<longleftrightarrow>
     (\<forall>e h i. e < length (past_kv_cache_init_infer_envs self) \<longrightarrow>
        (past_kv_cache_init_infer_envs self ! e) h = Some i \<longrightarrow> i < shared_pool_size_init self) \<and>
     (\<forall>h i. past_kv_cache_recurrent_infer self h = Some i \<longrightarrow> i < shared_pool_size self) \<and>
     (\<forall>e. e < length (shared_pool_index_init_envs self) \<longrightarrow>
        shared_pool_size_init self = 0 \<or> shared_pool_index_init_envs self ! e < shared_pool_size_init self) \<and>
     (shared_pool_size self = 0 \<or> shared_pool_index self < shared_pool_size self) \<and>
     length (shared_pool_recur_infer self) = shared_pool_size self \<and>
     length (shared_pool_init_infer self) = length (past_kv_cache_init_infer_envs self) \<and>
     (\<forall>e. e < length (shared_pool_init_infer self) \<longrightarrow>
        length (shared_pool_init_infer self ! e) = shared_pool_size_init self)"

text \<open>
  What a step keeps: the invariant, the two capacities and the number of init-phase
  indices.
\<close>

definition keeps_inv :: "'a WorldModel \<Rightarrow> 'a WorldModel \<Rightarrow> bool" where
  "keeps_inv a b \<longleftrightarrow>
     (index_inv a \<longrightarrow> index_inv b) \<and>
     shared_pool_size b = shared_pool_size a \<and>
     shared_pool_size_init b = shared_pool_size_init a \<and>
     length (past_kv_cache_init_infer_envs b) = length (past_kv_cache_init_infer_envs a)"

text \<open>
  The frame of the init-phase indices across a step that stores the contexts of the latent
  states \<open>latent\<close>, one per environment: the indices are as many as before, and an entry
  that differs is the one of an environment's latent state, under its hash.
\<close>

definition init_index_changes ::
  "(latent \<Rightarrow> 64 word) \<Rightarrow> latent list \<Rightarrow> 'a WorldModel \<Rightarrow> 'a WorldModel \<Rightarrow> bool" where
  "init_index_changes xxh64 latent a b \<longleftrightarrow>
     length (past_kv_cache_init_infer_envs b) = length (past_kv_cache_init_infer_envs a) \<and>
     (\<forall>e h. e < length (past_kv_cache_init_infer_envs a) \<longrightarrow>
        (past_kv_cache_init_infer_envs b ! e) h \<noteq> (past_kv_cache_init_infer_envs a ! e) h \<longrightarrow>
        e < length latent \<and> h = hash_state xxh64 (latent ! e))"

text \<open>
  A search on the small model as the constructor builds it: the initial inference of the
  first step of an episode (all actions \<open>-1\<close>) on the latents \<open>[1]\<close> and \<open>[2, 3]\<close>,
  then one recurrent inference from them. \<open>example_step\<close> is the next step of the
  episode, where the latent of environment 0 has become \<open>[4, 4, 4]\<close>. The observations
  are given as their latents, so the encoder is the identity.
\<close>

definition example_calls :: "(int, latent list, unit) call list" where
  "example_calls =
     [Forward_initial_inference
        \<lparr>obs = [[1], [2, 3]], action = Some [Scalar (- 1), Scalar (- 1)],
         current_obs = Some [[1], [2, 3]]\<rparr> (Pos_array [0, 0]),
      Forward_recurrent_inference [([[1], [2, 3]], [Scalar 0, Scalar 1])] [1] (Pos_array [0, 0])]"

definition example_built :: "py_error + int WorldModel" where
  "example_built =
     bind_r (init_WorldModel example_created example_init_weights 4 1 2 False False 1 2)
       (\<lambda>(w, m). Inr m)"

definition example_searched :: "py_error + int WorldModel" where
  "example_searched =
     bind_r example_built (for_each example_calls (call example_xxh64 example_fwd (\<lambda>b. b)))"

definition example_step :: "(latent list, unit) obs_act_dict" where
  "example_step =
     \<lparr>obs = [[1], [2, 3]], action = Some [Scalar 0, Scalar 1],
      current_obs = Some [[4, 4, 4], [2, 3]]\<rparr>"

section \<open>Properties\<close>

subsection \<open>Results of the basic operations\<close>

lemma bind_r_Inr: "bind_r m f = Inr y \<longleftrightarrow> (\<exists>x. m = Inr x \<and> f x = Inr y)"
  by (cases m) auto

lemma nth_r_Inr: "nth_r xs i = Inr x \<longleftrightarrow> i < length xs \<and> xs ! i = x"
  by (auto simp: nth_r_def)

lemma set_r_Inr: "set_r xs i v = Inr ys \<longleftrightarrow> i < length xs \<and> ys = xs[i := v]"
  by (auto simp: set_r_def)

lemma mod_r_Inr: "mod_r a b = Inr c \<longleftrightarrow> b \<noteq> 0 \<and> c = a mod b"
  by (auto simp: mod_r_def)

lemma not_isl_Inr: "\<not> isl m \<Longrightarrow> \<exists>x. m = Inr x"
  by (cases m) auto

subsection \<open>Pool stores\<close>

lemma store_effect:
  assumes "store pool src_kv self = Inr (r, self')"
  shows "r = returned_for pool (cursor pool self)"
    and "cursor pool self' = (cursor pool self + 1) mod capacity pool self"
    and "capacity pool self' = capacity pool self"
    and "capacity pool self \<noteq> 0"
    and "cursor pool self < length (slots pool self)"
    and "length (slots pool self') = length (slots pool self)"
    and "\<exists>dst_kv. fill_slot src_kv (slots pool self ! cursor pool self) = Inr dst_kv \<and>
           slots pool self' = (slots pool self)[cursor pool self := Some dst_kv]"
  using assms
  by (cases pool; auto simp: store_def cursor_def capacity_def slots_def returned_for_def
      custom_copy_kv_cache_to_shared_init_envs_def custom_copy_kv_cache_to_shared_recur_def
      custom_copy_kv_cache_to_shared_wm_def bind_r_Inr nth_r_Inr mod_r_Inr)+

lemma store_seq_returns:
  "store_seq pool srcs self = Inr (rs, self') \<Longrightarrow> cursor pool self < capacity pool self \<Longrightarrow>
     rs = map (\<lambda>k. returned_for pool ((cursor pool self + k) mod capacity pool self))
            [0..<length srcs]"
proof (induction srcs arbitrary: self rs)
  case Nil
  then show ?case by simp
next
  case (Cons src rest)
  from Cons.prems(1) obtain r s1 rs1 where
    st: "store pool src self = Inr (r, s1)" and
    sq: "store_seq pool rest s1 = Inr (rs1, self')" and
    rs: "rs = r # rs1"
    by (auto simp: bind_r_Inr)
  note eff = store_effect[OF st]
  have c1: "cursor pool s1 < capacity pool s1"
    using eff(2,3,4) by simp
  have ih: "rs1 = map (\<lambda>k. returned_for pool ((cursor pool s1 + k) mod capacity pool s1))
                    [0..<length rest]"
    by (rule Cons.IH[OF sq c1])
  have shift: "((cursor pool self + 1) mod capacity pool self + k) mod capacity pool self
                = (cursor pool self + Suc k) mod capacity pool self" for k
    by (simp add: mod_add_left_eq)
  have "[0..<length (src # rest)] = 0 # map Suc [0..<length rest]"
    by (simp add: upt_conv_Cons map_Suc_upt del: upt_Suc)
  then show ?case
    using rs ih eff(1,2,3) Cons.prems(2) shift by (simp add: comp_def del: upt_Suc)
qed

lemma returned_for_inj: "returned_for pool a = returned_for pool b \<longleftrightarrow> a = b"
  by (cases pool) (auto simp: returned_for_def)

text \<open>
  C4. Pool FIFO property. Starting with the cursor at 0 (a fresh pool), \<open>C + 1\<close>
  sequential stores into a pool of capacity \<open>C\<close> return, for the \<open>k\<close>-th store counted
  from 0, the slot \<open>k mod C\<close>: the last store returns the slot of the first, and the first
  \<open>C\<close> stores return pairwise distinct slots, so the 2nd to the \<open>C\<close>-th give \<open>C - 1\<close>
  distinct slots other than the first. (For the working pool the value returned is the
  slot's cache, not its index; the slots are the same.)
\<close>

theorem pool_fifo:
  assumes "cursor pool self = 0"
    and "length srcs = capacity pool self + 1"
    and "store_seq pool srcs self = Inr (rs, self')"
  shows "rs ! capacity pool self = rs ! 0 \<and> distinct (take (capacity pool self) rs) \<and>
         (\<forall>k \<le> capacity pool self. rs ! k = returned_for pool (k mod capacity pool self))"
proof -
  obtain src rest where srcs: "srcs = src # rest"
    using assms(2) by (cases srcs) auto
  from assms(3) srcs obtain r s1 where st: "store pool src self = Inr (r, s1)"
    by (auto simp: bind_r_Inr)
  have pos: "0 < capacity pool self"
    using store_effect(4)[OF st] by simp
  have rs: "rs = map (\<lambda>k. returned_for pool (k mod capacity pool self))
                   [0..<capacity pool self + 1]"
    using store_seq_returns[OF assms(3)] pos assms(1,2) by simp
  have nth: "rs ! k = returned_for pool (k mod capacity pool self)"
    if "k \<le> capacity pool self" for k
    using that by (subst rs) (simp del: upt_Suc add: nth_map_upt)
  have tk: "take (capacity pool self) rs = map (returned_for pool) [0..<capacity pool self]"
    by (subst rs) (simp add: take_map)
  have "distinct (take (capacity pool self) rs)"
    unfolding tk by (simp add: distinct_map inj_on_def returned_for_inj)
  moreover have "rs ! capacity pool self = rs ! 0"
    using nth[of "capacity pool self"] nth[of 0] by simp
  ultimately show ?thesis using nth by blast
qed

theorem pool_fifo_witness:
  "cursor (Init_pool 0) example_model = 0 \<and>
   length (replicate 3 example_context) = capacity (Init_pool 0) example_model + 1 \<and>
   (\<exists>rs self'. store_seq (Init_pool 0) (replicate 3 example_context) example_model = Inr (rs, self') \<and>
      rs ! 2 = rs ! 0 \<and> distinct (take 2 rs) \<and> rs ! 1 = Py_int 1)"
proof -
  have c: "cursor (Init_pool 0) example_model = 0"
    by code_simp
  have cap: "capacity (Init_pool 0) example_model = 2"
    by code_simp
  have l: "length (replicate 3 example_context) = capacity (Init_pool 0) example_model + 1"
    by (simp add: cap)
  have "\<not> isl (store_seq (Init_pool 0) (replicate 3 example_context) example_model)"
    by code_simp
  then obtain rs self' where
    eq: "store_seq (Init_pool 0) (replicate 3 example_context) example_model = Inr (rs, self')"
    using not_isl_Inr by fastforce
  from pool_fifo[OF c l eq] have
    "rs ! 2 = rs ! 0 \<and> distinct (take 2 rs) \<and> rs ! 1 = Py_int 1"
    by (simp add: cap returned_for_def)
  with c l eq show ?thesis by blast
qed

text \<open>
  C5, as stated, fails: the store into the scratch/working pool returns the ContextCache
  object of the slot it wrote, not the slot's integer index. On the small model its first
  store returns the cache of slot 0, which is not the integer 0.
\<close>

theorem store_wm_returns_cache_counterexample:
  "map_sum id fst (store Wm_pool example_context example_model)
     = Inr (Py_KeysValues (Wm_slot 0)) \<and>
   map_sum id fst (store Wm_pool example_context example_model)
     \<noteq> Inr (Py_int (cursor Wm_pool example_model))"
proof -
  have "map_sum id fst (store Wm_pool example_context example_model)
          = Inr (Py_KeysValues (Wm_slot 0))"
    by code_simp
  then show ?thesis by simp
qed

text \<open>
  C5, amended. Every store writes the slot under the pool's cursor (the slot holds the
  copy of the source afterwards) and advances the cursor to \<open>(cursor + 1) mod capacity\<close>.
  The stores into an init-per-environment pool and into the recurrent-shared pool return
  the integer index of the slot written; the store into the scratch/working pool returns
  the slot's ContextCache.
\<close>

theorem store_returns_slot:
  assumes "store pool src_kv self = Inr (r, self')"
  shows "r = (case pool of Wm_pool \<Rightarrow> Py_KeysValues (Wm_slot (cursor pool self))
                          | _ \<Rightarrow> Py_int (cursor pool self)) \<and>
         cursor pool self' = (cursor pool self + 1) mod capacity pool self \<and>
         cursor pool self < length (slots pool self) \<and>
         (\<exists>dst_kv. fill_slot src_kv (slots pool self ! cursor pool self) = Inr dst_kv \<and>
            slots pool self' = (slots pool self)[cursor pool self := Some dst_kv])"
  using store_effect[OF assms] by (simp add: returned_for_def)

theorem store_returns_slot_witness:
  "\<exists>r self'. store Recur_pool example_context example_model = Inr (r, self') \<and>
     r = Py_int 0 \<and> cursor Recur_pool self' = 1 \<and>
     slots Recur_pool self' ! 0 = Some example_context"
proof -
  have "\<not> isl (store Recur_pool example_context example_model)"
    by code_simp
  then obtain r self' where
    eq: "store Recur_pool example_context example_model = Inr (r, self')"
    using not_isl_Inr by fastforce
  have c: "cursor Recur_pool example_model = 0" by code_simp
  have cap: "capacity Recur_pool example_model = 4" by code_simp
  have sl: "slots Recur_pool example_model = replicate 4 None" by code_simp
  have fs: "fill_slot example_context None = Inr example_context" by code_simp
  from store_returns_slot[OF eq] have
    "r = Py_int 0 \<and> cursor Recur_pool self' = 1 \<and>
     slots Recur_pool self' ! 0 = Some example_context"
    by (auto simp: c cap sl fs)
  with eq show ?thesis by blast
qed

subsection \<open>The state hash\<close>

lemma hex_digit_inj: "a < 16 \<Longrightarrow> b < 16 \<Longrightarrow> hex_digit a = hex_digit b \<Longrightarrow> a = b"
proof -
  assume a: "a < 16" and b: "b < 16" and e: "hex_digit a = hex_digit b"
  have d: "distinct ''0123456789abcdef''" by simp
  have l: "length ''0123456789abcdef'' = 16" by simp
  have "a < length ''0123456789abcdef''" "b < length ''0123456789abcdef''"
    using a b l by simp_all
  then show "a = b"
    using e d unfolding hex_digit_def by (simp only: nth_eq_iff_index_eq)
qed

lemma nibble_lt: "nibble w i < 16"
  by (simp add: nibble_def)

lemma nibble_word: "nibble w i = unat (take_bit 4 (drop_bit (4 * i) w))"
  unfolding nibble_def by (simp only: unsigned_take_bit_eq) (simp add: take_bit_eq_mod)

lemma hexdigest_nibbles:
  assumes "hexdigest a = hexdigest b" and "i < 16"
  shows "nibble a i = nibble b i"
proof -
  have "rev (map (\<lambda>i. hex_digit (nibble a i)) [0..<16])
          = rev (map (\<lambda>i. hex_digit (nibble b i)) [0..<16])"
    using assms(1) unfolding hexdigest_def by (simp only: rev_map)
  then have "map (\<lambda>i. hex_digit (nibble a i)) [0..<16]
               = map (\<lambda>i. hex_digit (nibble b i)) [0..<16]"
    by (simp only: rev_is_rev_conv)
  then have "\<forall>x \<in> set [0..<16]. hex_digit (nibble a x) = hex_digit (nibble b x)"
    by (simp only: map_eq_conv)
  then have "hex_digit (nibble a i) = hex_digit (nibble b i)"
    using assms(2) by (simp del: upt_Suc)
  then show ?thesis
    by (rule hex_digit_inj[OF nibble_lt nibble_lt])
qed

text \<open>The 16 digits determine the digest: four bits of it each.\<close>

lemma hexdigest_inj: "hexdigest a = hexdigest b \<Longrightarrow> a = b"
proof (rule bit_word_eqI)
  fix n
  assume eq: "hexdigest a = hexdigest b" and n: "n < LENGTH(64)"
  have i: "n div 4 < 16" using n by simp
  have "take_bit 4 (drop_bit (4 * (n div 4)) a) = take_bit 4 (drop_bit (4 * (n div 4)) b)"
    using hexdigest_nibbles[OF eq i] unfolding nibble_word by (simp only: word_unat_eq_iff)
  then have "bit (take_bit 4 (drop_bit (4 * (n div 4)) a)) (n mod 4)
             = bit (take_bit 4 (drop_bit (4 * (n div 4)) b)) (n mod 4)"
    by (rule arg_cong)
  then show "bit a n = bit b n"
    by (simp add: bit_take_bit_iff bit_drop_bit_eq)
qed

lemma hexdigest_length: "length (hexdigest w) = 16"
  by (simp add: hexdigest_def)

lemma hexdigest_chars: "set (hexdigest w) \<subseteq> set ''0123456789abcdef''"
proof -
  have "hex_digit n \<in> set ''0123456789abcdef''" if "n < 16" for n
    unfolding hex_digit_def using that by (intro nth_mem) simp
  then show ?thesis
    unfolding hexdigest_def using nibble_lt by (auto simp del: upt_Suc)
qed

text \<open>
  C9. \<open>hash_state\<close> is a function of the bytes of its input alone: it takes no part of
  the model's state, and byte-identical inputs get equal keys. A key is 16 hexadecimal
  digits, and two keys are equal exactly when the 64-bit digests are. (That the xxhash
  digest itself is a function of the bytes is how the library is taken here.)
\<close>

theorem hash_state_deterministic:
  "(state = state' \<longrightarrow> hash_state xxh64 state = hash_state xxh64 state') \<and>
   (hash_state xxh64 state = hash_state xxh64 state' \<longleftrightarrow> xxh64 state = xxh64 state') \<and>
   length (hash_state xxh64 state) = 16 \<and>
   set (hash_state xxh64 state) \<subseteq> set ''0123456789abcdef''"
  using hexdigest_inj hexdigest_length hexdigest_chars by (auto simp: hash_state_def)

theorem hash_state_deterministic_witness:
  "hash_state (\<lambda>bs. word_of_nat (length bs)) [1, 2, 3] = ''0000000000000003'' \<and>
   hash_state (\<lambda>bs. word_of_nat (length bs)) [1, 2, 3]
     = hash_state (\<lambda>bs. word_of_nat (length bs)) [1, 2, 3] \<and>
   hash_state (\<lambda>bs. word_of_nat (length bs)) [1, 2, 3]
     \<noteq> hash_state (\<lambda>bs. word_of_nat (length bs)) [1, 2]"
proof -
  have v: "hash_state (\<lambda>bs. word_of_nat (length bs)) [1, 2, 3] = ''0000000000000003''"
    by code_simp
  have "(word_of_nat (length [1::8 word, 2, 3]) :: 64 word) \<noteq> word_of_nat (length [1::8 word, 2])"
    by simp
  with hash_state_deterministic[of "[1, 2, 3]" "[1, 2]" "\<lambda>bs. word_of_nat (length bs)"]
    hash_state_deterministic[of "[1, 2, 3]" "[1, 2, 3]" "\<lambda>bs. word_of_nat (length bs)"] v
  show ?thesis by simp
qed

subsection \<open>Clearing\<close>

text \<open>
  C8. After \<open>clear_caches\<close> every per-environment init-phase index and the shared
  recurrent-phase index are empty, so no lookup of any state hash, in any environment,
  finds a cache: the init lookup, the recurrent lookup and the combined lookup of
  \<open>retrieve_or_generate_kvcache\<close> all miss.
\<close>

theorem clear_caches_empties:
  "past_kv_cache_init_infer_envs (clear_caches self)
     = replicate (length (past_kv_cache_init_infer_envs self)) Map.empty \<and>
   past_kv_cache_recurrent_infer (clear_caches self) = Map.empty \<and>
   lookup_init (clear_caches self) index cache_key \<noteq> Inr (Some kv) \<and>
   lookup_recur (clear_caches self) cache_key = None \<and>
   retrieve_matched (clear_caches self) index cache_key \<noteq> Inr (Some kv)"
  by (auto simp: clear_caches_def lookup_init_def lookup_recur_def retrieve_matched_def
      nth_r_def map_replicate_const bind_r_Inr)

subsection \<open>The positional-delta table and the window shrink\<close>

lemma map_r_Inr:
  "map_r f xs = Inr ys \<Longrightarrow> length ys = length xs \<and> (\<forall>i < length xs. f (xs ! i) = Inr (ys ! i))"
proof (induction xs arbitrary: ys)
  case Nil
  then show ?case by simp
next
  case (Cons x xs)
  from Cons.prems obtain y ys' where y: "f x = Inr y" and ys': "map_r f xs = Inr ys'"
    and ys: "ys = y # ys'"
    by (auto simp: bind_r_Inr)
  from Cons.IH[OF ys'] y ys show ?case
    by (auto simp: nth_Cons split: nat.splits)
qed

lemma pos_emb_diff_window:
  assumes "2 < cl" and "cl - 1 \<le> length weight"
  shows "pos_emb_diff (get_positional_embedding attn weight layer ty) 2 (cl - 1)
           = Inr (pos_delta attn weight cl layer ty)"
proof -
  let ?pe = "get_positional_embedding attn weight layer ty"
  have len: "length ?pe = length weight"
    by (simp add: get_positional_embedding_def)
  have lx: "length (slice 0 (cl - 1 - 2) ?pe) = cl - 3"
    using assms len by (simp add: slice_def)
  have ly: "length (slice 2 (cl - 1) ?pe) = cl - 3"
    using assms len by (simp add: slice_def)
  have "map2 (-) (slice 0 (cl - 1 - 2) ?pe) (slice 2 (cl - 1) ?pe) = pos_delta attn weight cl layer ty"
  proof (rule nth_equalityI)
    show "length (map2 (-) (slice 0 (cl - 1 - 2) ?pe) (slice 2 (cl - 1) ?pe))
            = length (pos_delta attn weight cl layer ty)"
      using lx ly by (simp add: pos_delta_def)
  next
    fix j
    assume "j < length (map2 (-) (slice 0 (cl - 1 - 2) ?pe) (slice 2 (cl - 1) ?pe))"
    then have j: "j < cl - 3" using lx ly by simp
    then show "map2 (-) (slice 0 (cl - 1 - 2) ?pe) (slice 2 (cl - 1) ?pe) ! j
                 = pos_delta attn weight cl layer ty ! j"
      using assms lx ly
      by (simp add: pos_delta_def slice_def get_positional_embedding_def)
  qed
  then show ?thesis
    using lx ly by (simp add: pos_emb_diff_def tensor_sub_def)
qed

lemma precompute_tables:
  assumes pre: "precompute_pos_emb_diff_kv attn weight self0 = Inr self"
    and cl: "2 < context_length self0"
    and w: "context_length self0 - 1 \<le> length weight"
    and l: "layer < num_layers self0"
  shows "table_entry (pos_emb_diff_k self) layer (2, context_length self - 1)
           = Inr (pos_delta attn weight (context_length self) layer Key)"
    and "table_entry (pos_emb_diff_v self) layer (2, context_length self - 1)
           = Inr (pos_delta attn weight (context_length self) layer Value)"
    and "context_length self = context_length self0"
    and "rotary_emb self = rotary_emb self0"
proof -
  from pre cl obtain ts where
    ts: "map_r (layer_tables attn weight (context_length self0)) [0..<num_layers self0] = Inr ts"
    and self: "self = self0\<lparr>pos_emb_diff_k := Some (map fst ts), pos_emb_diff_v := Some (map snd ts)\<rparr>"
    by (auto simp: precompute_pos_emb_diff_kv_def bind_r_Inr)
  from map_r_Inr[OF ts] l have
    n: "length ts = num_layers self0" and
    t: "layer_tables attn weight (context_length self0) layer = Inr (ts ! layer)"
    by auto
  from t have
    "ts ! layer = ([(2, context_length self0 - 1) \<mapsto> pos_delta attn weight (context_length self0) layer Key],
                   [(2, context_length self0 - 1) \<mapsto> pos_delta attn weight (context_length self0) layer Value])"
    unfolding layer_tables_def pos_emb_diff_window[OF cl w] by simp
  then show "table_entry (pos_emb_diff_k self) layer (2, context_length self - 1)
           = Inr (pos_delta attn weight (context_length self) layer Key)"
    and "table_entry (pos_emb_diff_v self) layer (2, context_length self - 1)
           = Inr (pos_delta attn weight (context_length self) layer Value)"
    using n l by (simp_all add: self table_entry_def nth_r_def)
  show "context_length self = context_length self0" "rotary_emb self = rotary_emb self0"
    by (simp_all add: self)
qed

lemma length_pos_delta: "length (pos_delta attn weight cl layer ty) = cl - 3"
  by (simp add: pos_delta_def)

text \<open>
  What the constructor leaves, and what the window shrink does with it in any later state
  with the same positional configuration: the weights of the model are the ones drawn by
  \<open>init_weights\<close>; the table entry of the window \<open>(2, context_length - 1)\<close> is, for
  each layer and for keys and values apart, the positional delta of the weights the
  modules were created with; the shrink leaves the retained span as it is when the model
  uses rotary embeddings and adds that entry to it when it does not. The embedding table
  has to reach the offset \<open>context_length - 1\<close>, and the buffers too.
\<close>

lemma shrink_adds_table_of_created_weights:
  fixes self0 :: "'a::{zero,plus,minus} WorldModel"
  assumes init: "init_WorldModel created init_weights cl layers envs rotary continuous obs_tokens sims
                   = Inr (weights, self0)"
    and same: "positional_config self = positional_config self0"
    and cl: "2 < cl"
    and w: "cl - 1 \<le> length (pos_emb_weight created)"
    and l: "layer < layers"
    and k: "cl - 1 \<le> length k_cache_current"
    and v: "cl - 1 \<le> length v_cache_current"
  shows "weights = init_weights created \<and>
         (\<not> rotary \<longrightarrow>
            table_entry (pos_emb_diff_k self) layer (2, cl - 1)
              = Inr (pos_delta (attn_proj created) (pos_emb_weight created) cl layer Key) \<and>
            table_entry (pos_emb_diff_v self) layer (2, cl - 1)
              = Inr (pos_delta (attn_proj created) (pos_emb_weight created) cl layer Value)) \<and>
         shrink_window self layer k_cache_current v_cache_current
           = (let kc = (if rotary then slice 2 (cl - 1) k_cache_current
                        else map2 (+) (slice 2 (cl - 1) k_cache_current)
                                      (pos_delta (attn_proj created) (pos_emb_weight created) cl layer Key));
                  vc = (if rotary then slice 2 (cl - 1) v_cache_current
                        else map2 (+) (slice 2 (cl - 1) v_cache_current)
                                      (pos_delta (attn_proj created) (pos_emb_weight created) cl layer Value))
              in Inr (kc, vc, \<lparr>k_cache = \<lparr>cache = pad_back 3 kc, size_c = cl - 3\<rparr>,
                               v_cache = \<lparr>cache = pad_back 3 vc, size_c = cl - 3\<rparr>\<rparr>))"
proof -
  let ?attn = "attn_proj created" and ?weight = "pos_emb_weight created"
  let ?i = "init_caches cl layers envs rotary continuous obs_tokens sims :: 'a WorldModel"
  let ?build = "if \<not> rotary then precompute_pos_emb_diff_kv ?attn ?weight ?i else Inr ?i"
  from init obtain s where s: "?build = Inr s"
    unfolding init_WorldModel_def by (cases ?build) simp_all
  from init s have drawn: "weights = init_weights created" and s0: "s = self0"
    unfolding init_WorldModel_def by simp_all
  note build = s[unfolded s0]
  have ci: "context_length ?i = cl" "rotary_emb ?i = rotary" "num_layers ?i = layers"
    by (simp_all add: init_caches_def)
  have cfg: "context_length self = cl" "rotary_emb self = rotary"
  proof -
    have "context_length self0 = cl \<and> rotary_emb self0 = rotary"
    proof (cases rotary)
      case True
      then show ?thesis using build ci by auto
    next
      case False
      then have "precompute_pos_emb_diff_kv ?attn ?weight ?i = Inr self0"
        using build by simp
      then show ?thesis
        using precompute_tables(3,4)[of ?attn ?weight ?i self0 0] cl w ci
        by (auto simp: precompute_pos_emb_diff_kv_def bind_r_Inr)
    qed
    then show "context_length self = cl" "rotary_emb self = rotary"
      using same by (simp_all add: positional_config_def)
  qed
  have lk: "length (slice 2 (cl - 1) k_cache_current) = cl - 3"
    using k cl by (simp add: slice_def)
  have lv: "length (slice 2 (cl - 1) v_cache_current) = cl - 3"
    using v cl by (simp add: slice_def)
  show ?thesis
  proof (cases rotary)
    case True
    then show ?thesis
      using cfg drawn by (simp add: shrink_window_def correct_trimmed_def Let_def)
  next
    case False
    then have pre: "precompute_pos_emb_diff_kv ?attn ?weight ?i = Inr self0"
      using build by simp
    have t: "table_entry (pos_emb_diff_k self0) layer (2, cl - 1)
               = Inr (pos_delta ?attn ?weight cl layer Key)"
            "table_entry (pos_emb_diff_v self0) layer (2, cl - 1)
               = Inr (pos_delta ?attn ?weight cl layer Value)"
      using precompute_tables[OF pre] cl w l ci by simp_all
    have eqk: "pos_emb_diff_k self = pos_emb_diff_k self0"
      and eqv: "pos_emb_diff_v self = pos_emb_diff_v self0"
      using same by (simp_all add: positional_config_def)
    have ct: "correct_trimmed self layer (slice 2 (cl - 1) k_cache_current)
                (slice 2 (cl - 1) v_cache_current)
              = Inr (map2 (+) (slice 2 (cl - 1) k_cache_current) (pos_delta ?attn ?weight cl layer Key),
                     map2 (+) (slice 2 (cl - 1) v_cache_current) (pos_delta ?attn ?weight cl layer Value))"
      unfolding correct_trimmed_def cfg eqk eqv t
      using False lk lv by (simp add: tensor_iadd_def length_pos_delta)
    show ?thesis
      unfolding shrink_window_def cfg ct eqk eqv t using False drawn by (simp add: Let_def)
  qed
qed

text \<open>
  C6. The correction is applied exactly when the model does not use rotary embeddings,
  but the table entry it applies is not the positional delta of the model's embedding:
  the constructor computes the table from the weights the modules are created with and
  then draws all of them anew. In the small model, built without rotary embeddings, the
  entries for the window \<open>(2, 3)\<close> of layer 0 are \<open>[-3]\<close> for keys and \<open>[-6]\<close> for
  values, the deltas of the weights at creation, while the transformed positional
  embedding the model has gives \<open>[-2]\<close> and \<open>[-1]\<close>; the window shrink adds the former
  to the retained span.
\<close>

theorem positional_delta_stale:
  "(case init_WorldModel example_created example_init_weights 4 1 2 False False 1 2 of
      Inl e \<Rightarrow> False
    | Inr (weights, self) \<Rightarrow>
        weights = example_init_weights example_created \<and>
        table_entry (pos_emb_diff_k self) 0 (2, 3) = Inr [- 3] \<and>
        table_entry (pos_emb_diff_v self) 0 (2, 3) = Inr [- 6] \<and>
        pos_delta (attn_proj example_created) (pos_emb_weight example_created) 4 0 Key = [- 3] \<and>
        pos_delta (attn_proj example_created) (pos_emb_weight example_created) 4 0 Value = [- 6] \<and>
        pos_delta (attn_proj weights) (pos_emb_weight weights) 4 0 Key = [- 2] \<and>
        pos_delta (attn_proj weights) (pos_emb_weight weights) 4 0 Value = [- 1] \<and>
        shrink_window self 0 [1, 2, 3, 4] [5, 6, 7, 8]
          = Inr ([0], [1], \<lparr>k_cache = \<lparr>cache = [0, 0, 0, 0], size_c = 1\<rparr>,
                            v_cache = \<lparr>cache = [1, 0, 0, 0], size_c = 1\<rparr>\<rparr>))"
proof -
  have "\<not> isl (init_WorldModel example_created example_init_weights 4 1 2 False False 1 2
                 :: py_error + ((int, int) Weights \<times> int WorldModel))"
    by code_simp
  then obtain r where
    "init_WorldModel example_created example_init_weights 4 1 2 False False 1 2 = Inr r"
    using not_isl_Inr by blast
  then obtain weights and self0 :: "int WorldModel" where
    init: "init_WorldModel example_created example_init_weights 4 1 2 False False 1 2
             = Inr (weights, self0)"
    by (cases r) auto
  have h: "(2::nat) < 4" "(4::nat) - 1 \<le> length (pos_emb_weight example_created)" "(0::nat) < 1"
    "(4::nat) - 1 \<le> length [1, 2, 3, 4 :: int]" "(4::nat) - 1 \<le> length [5, 6, 7, 8 :: int]"
    by (simp_all add: example_created_def example_weight_def)
  have dk: "pos_delta (attn_proj example_created) (pos_emb_weight example_created) 4 0 Key = [- 3]"
    by code_simp
  have dv: "pos_delta (attn_proj example_created) (pos_emb_weight example_created) 4 0 Value = [- 6]"
    by code_simp
  have nk: "pos_delta (attn_proj (example_init_weights example_created))
              (pos_emb_weight (example_init_weights example_created)) 4 0 Key = [- 2]"
    by code_simp
  have nv: "pos_delta (attn_proj (example_init_weights example_created))
              (pos_emb_weight (example_init_weights example_created)) 4 0 Value = [- 1]"
    by code_simp
  have sk: "slice 2 (4 - 1) [1, 2, 3, 4 :: int] = [3]" by code_simp
  have sv: "slice 2 (4 - 1) [5, 6, 7, 8 :: int] = [7]" by code_simp
  have pk: "pad_back 3 [0 :: int] = [0, 0, 0, 0]" by code_simp
  have pv: "pad_back 3 [1 :: int] = [1, 0, 0, 0]" by code_simp
  have n: "(4::nat) - 3 = 1" "(4::nat) - 1 = 3" by simp_all
  note th = shrink_adds_table_of_created_weights[OF init refl h, unfolded dk dv sk sv]
  from th have
    "weights = example_init_weights example_created \<and>
     table_entry (pos_emb_diff_k self0) 0 (2, 3) = Inr [- 3] \<and>
     table_entry (pos_emb_diff_v self0) 0 (2, 3) = Inr [- 6] \<and>
     shrink_window self0 0 [1, 2, 3, 4] [5, 6, 7, 8]
       = Inr ([0], [1], \<lparr>k_cache = \<lparr>cache = [0, 0, 0, 0], size_c = 1\<rparr>,
                         v_cache = \<lparr>cache = [1, 0, 0, 0], size_c = 1\<rparr>\<rparr>)"
    by (simp add: Let_def pk pv n)
  then show ?thesis
    unfolding init using dk dv nk nv by simp
qed

subsection \<open>Loops, and the layers of one environment\<close>

lemma for_each_invariant:
  assumes "for_each js f s = Inr s'" and "P s"
    and "\<And>j a b. j \<in> set js \<Longrightarrow> P a \<Longrightarrow> f j a = Inr b \<Longrightarrow> P b"
  shows "P s'"
  using assms
proof (induction js arbitrary: s)
  case Nil
  then show ?case by simp
next
  case (Cons j js)
  from Cons.prems(1) obtain s1 where s1: "f j s = Inr s1" and rest: "for_each js f s1 = Inr s'"
    by (auto simp: bind_r_Inr)
  have "P s1" using Cons.prems(3)[of j s s1] Cons.prems(2) s1 by simp
  moreover have "\<And>l a b. l \<in> set js \<Longrightarrow> P a \<Longrightarrow> f l a = Inr b \<Longrightarrow> P b"
    by (rule Cons.prems(3)) auto
  ultimately show ?case using Cons.IH[OF rest] by blast
qed

text \<open>
  What a loop over distinct indices leaves at one of them: the step at that index
  establishes \<open>Q\<close>, and the steps at the other indices keep what \<open>Q\<close> depends on
  (\<open>E\<close>).
\<close>

lemma for_each_at:
  assumes run: "for_each js f s = Inr s'" and d: "distinct js" and j: "j \<in> set js"
    and step: "\<And>l a b. l \<in> set js \<Longrightarrow> f l a = Inr b \<Longrightarrow> (l = j \<longrightarrow> Q a b) \<and> (l \<noteq> j \<longrightarrow> E a b)"
    and refl: "\<And>a. E a a"
    and trans: "\<And>a b c. E a b \<Longrightarrow> E b c \<Longrightarrow> E a c"
    and compat: "\<And>a a' b b'. E a a' \<Longrightarrow> Q a' b \<Longrightarrow> E b b' \<Longrightarrow> Q a b'"
  shows "Q s s'"
  using run d j step
proof (induction js arbitrary: s)
  case Nil
  then show ?case by simp
next
  case (Cons l js)
  from Cons.prems(1) obtain s1 where s1: "f l s = Inr s1" and rest: "for_each js f s1 = Inr s'"
    by (auto simp: bind_r_Inr)
  show ?case
  proof (cases "l = j")
    case True
    then have q: "Q s s1" using Cons.prems(4)[of l s s1] s1 by simp
    have "j \<notin> set js" using Cons.prems(2) True by simp
    then have "\<And>m a b. m \<in> set js \<Longrightarrow> E s1 a \<Longrightarrow> f m a = Inr b \<Longrightarrow> E s1 b"
    proof -
      fix m a b
      assume nj: "j \<notin> set js" and m: "m \<in> set js" and e: "E s1 a" and f: "f m a = Inr b"
      have "m \<noteq> j" using nj m by auto
      moreover have "m \<in> set (l # js)" using m by simp
      ultimately have "E a b" using Cons.prems(4)[OF _ f] by blast
      then show "E s1 b" using trans[OF e] by blast
    qed
    then have "E s1 s'"
      using for_each_invariant[OF rest, of "E s1"] refl by blast
    then show ?thesis using compat[OF refl q] by blast
  next
    case False
    then have e: "E s s1" using Cons.prems(4)[of l s s1] s1 by simp
    have jin: "j \<in> set js" using Cons.prems(3) False by simp
    have st: "\<And>m a b. m \<in> set js \<Longrightarrow> f m a = Inr b \<Longrightarrow> (m = j \<longrightarrow> Q a b) \<and> (m \<noteq> j \<longrightarrow> E a b)"
      by (rule Cons.prems(4)) auto
    have dj: "distinct js" using Cons.prems(2) by simp
    have "Q s1 s'"
      by (rule Cons.IH[OF rest dj jin st])
    then show ?thesis using compat[OF e _ refl] by blast
  qed
qed

lemma update_layer_root_Inr:
  assumes run: "update_layer_root i layer a = Inr b"
  shows "\<exists>l. read_layer_root i layer a = Inr l \<and> layer < length (keys_values_wm_single_env a) \<and>
       (if size_c (k_cache l) < context_length a - 1
        then b = a\<lparr>keys_values_wm_single_env := (keys_values_wm_single_env a)[layer := l]\<rparr>
        else \<exists>k v l'. shrink_window a layer (cache (k_cache l)) (cache (v_cache l)) = Inr (k, v, l') \<and>
               b = a\<lparr>keys_values_wm :=
                        (if \<not> rotary_emb a then write_back layer i k v (keys_values_wm a)
                         else keys_values_wm a),
                      keys_values_wm_single_env := (keys_values_wm_single_env a)[layer := l']\<rparr>)"
proof -
  from run obtain l where l: "read_layer_root i layer a = Inr l"
    unfolding update_layer_root_def by (cases "read_layer_root i layer a") simp_all
  show ?thesis
  proof (cases "size_c (k_cache l) < context_length a - 1")
    case True
    with run l have
      "bind_r (set_r (keys_values_wm_single_env a) layer l)
         (\<lambda>single. Inr (a\<lparr>keys_values_wm_single_env := single\<rparr>)) = Inr b"
      unfolding update_layer_root_def by simp
    then have "layer < length (keys_values_wm_single_env a) \<and>
               b = a\<lparr>keys_values_wm_single_env := (keys_values_wm_single_env a)[layer := l]\<rparr>"
      by (auto simp: bind_r_Inr set_r_Inr)
    with l True show ?thesis by simp
  next
    case False
    with run l have r:
      "bind_r (shrink_window a layer (cache (k_cache l)) (cache (v_cache l))) (\<lambda>(k, v, l').
         bind_r (set_r (keys_values_wm_single_env a) layer l') (\<lambda>single.
         Inr (a\<lparr>keys_values_wm :=
                     (if \<not> rotary_emb a then write_back layer i k v (keys_values_wm a)
                      else keys_values_wm a),
                   keys_values_wm_single_env := single\<rparr>))) = Inr b"
      unfolding update_layer_root_def by simp
    then obtain k v l' where
      sw: "shrink_window a layer (cache (k_cache l)) (cache (v_cache l)) = Inr (k, v, l')" and
      r2: "bind_r (set_r (keys_values_wm_single_env a) layer l') (\<lambda>single.
         Inr (a\<lparr>keys_values_wm :=
                     (if \<not> rotary_emb a then write_back layer i k v (keys_values_wm a)
                      else keys_values_wm a),
                   keys_values_wm_single_env := single\<rparr>)) = Inr b"
      by (cases "shrink_window a layer (cache (k_cache l)) (cache (v_cache l))") auto
    from r2 have "layer < length (keys_values_wm_single_env a) \<and>
       b = a\<lparr>keys_values_wm :=
                     (if \<not> rotary_emb a then write_back layer i k v (keys_values_wm a)
                      else keys_values_wm a),
             keys_values_wm_single_env := (keys_values_wm_single_env a)[layer := l']\<rparr>"
      by (cases "set_r (keys_values_wm_single_env a) layer l'") (auto simp: set_r_Inr)
    with l False sw show ?thesis by auto
  qed
qed

lemma update_layer_internal_Inr:
  assumes run: "update_layer_internal i t z layer a = Inr b"
  shows "\<exists>l. read_layer_internal i t z layer a = Inr l \<and> layer < length (keys_values_wm_single_env a) \<and>
       (if context_length a - 1 \<le> z
        then \<exists>k v l'. shrink_window a layer (cache (k_cache l)) (cache (v_cache l)) = Inr (k, v, l') \<and>
               b = a\<lparr>keys_values_wm :=
                        (if \<not> rotary_emb a \<and> t = 0 then write_back layer i k v (keys_values_wm a)
                         else keys_values_wm a),
                      keys_values_wm_single_env := (keys_values_wm_single_env a)[layer := l']\<rparr>
        else b = a\<lparr>keys_values_wm_single_env := (keys_values_wm_single_env a)[layer := l]\<rparr>)"
proof -
  from run obtain l where l: "read_layer_internal i t z layer a = Inr l"
    unfolding update_layer_internal_def by (cases "read_layer_internal i t z layer a") simp_all
  from run l obtain single where
    single: "set_r (keys_values_wm_single_env a) layer l = Inr single"
    unfolding update_layer_internal_def
    by (cases "set_r (keys_values_wm_single_env a) layer l") simp_all
  then have len: "layer < length (keys_values_wm_single_env a)"
    and sg: "single = (keys_values_wm_single_env a)[layer := l]"
    by (simp_all add: set_r_Inr)
  show ?thesis
  proof (cases "context_length a - 1 \<le> z")
    case False
    with run l single have "b = a\<lparr>keys_values_wm_single_env := single\<rparr>"
      unfolding update_layer_internal_def by simp
    with l len sg False show ?thesis by simp
  next
    case True
    with run l single have r:
      "bind_r (shrink_window a layer (cache (k_cache l)) (cache (v_cache l))) (\<lambda>(k, v, l').
         bind_r (set_r single layer l') (\<lambda>single'.
         Inr (a\<lparr>keys_values_wm :=
                     (if \<not> rotary_emb a \<and> t = 0 then write_back layer i k v (keys_values_wm a)
                      else keys_values_wm a),
                   keys_values_wm_single_env := single'\<rparr>))) = Inr b"
      unfolding update_layer_internal_def by simp
    then obtain k v l' where
      sw: "shrink_window a layer (cache (k_cache l)) (cache (v_cache l)) = Inr (k, v, l')" and
      r2: "bind_r (set_r single layer l') (\<lambda>single'.
         Inr (a\<lparr>keys_values_wm :=
                     (if \<not> rotary_emb a \<and> t = 0 then write_back layer i k v (keys_values_wm a)
                      else keys_values_wm a),
                   keys_values_wm_single_env := single'\<rparr>)) = Inr b"
      by (cases "shrink_window a layer (cache (k_cache l)) (cache (v_cache l))") auto
    have s2: "set_r single layer l' = Inr ((keys_values_wm_single_env a)[layer := l'])"
      using len sg by (simp add: set_r_def)
    from r2 have
       "b = a\<lparr>keys_values_wm :=
                     (if \<not> rotary_emb a \<and> t = 0 then write_back layer i k v (keys_values_wm a)
                      else keys_values_wm a),
             keys_values_wm_single_env := (keys_values_wm_single_env a)[layer := l']\<rparr>"
      unfolding s2 by (simp only: bind_r.simps sum.inject)
    with l len True sw show ?thesis by auto
  qed
qed

lemma write_back_nth: "m \<noteq> layer \<Longrightarrow> write_back layer i k v kv ! m = kv ! m"
  by (simp add: write_back_def)

lemma length_write_back: "length (write_back layer i k v kv) = length kv"
  by (simp add: write_back_def)

lemma layer_frame_update:
  assumes "m \<noteq> layer"
  shows "layer_frame m a (a\<lparr>keys_values_wm := (if c then write_back layer i k v (keys_values_wm a)
                                                else keys_values_wm a),
                            keys_values_wm_single_env := (keys_values_wm_single_env a)[layer := l]\<rparr>)"
    and "layer_frame m a (a\<lparr>keys_values_wm_single_env := (keys_values_wm_single_env a)[layer := l]\<rparr>)"
  using assms
  by (simp_all add: layer_frame_def positional_config_def write_back_nth length_write_back)

lemma update_layer_root_frame:
  assumes "update_layer_root i layer a = Inr b" and "m \<noteq> layer"
  shows "layer_frame m a b"
proof -
  from update_layer_root_Inr[OF assms(1)] obtain l where
    c: "if size_c (k_cache l) < context_length a - 1
        then b = a\<lparr>keys_values_wm_single_env := (keys_values_wm_single_env a)[layer := l]\<rparr>
        else \<exists>k v l'. shrink_window a layer (cache (k_cache l)) (cache (v_cache l)) = Inr (k, v, l') \<and>
               b = a\<lparr>keys_values_wm :=
                        (if \<not> rotary_emb a then write_back layer i k v (keys_values_wm a)
                         else keys_values_wm a),
                      keys_values_wm_single_env := (keys_values_wm_single_env a)[layer := l']\<rparr>"
    by blast
  show ?thesis
  proof (cases "size_c (k_cache l) < context_length a - 1")
    case True
    with c have "b = a\<lparr>keys_values_wm_single_env := (keys_values_wm_single_env a)[layer := l]\<rparr>"
      by simp
    then show ?thesis by (simp only: layer_frame_update(2)[OF assms(2)])
  next
    case False
    with c obtain k v l' where
      "b = a\<lparr>keys_values_wm :=
                        (if \<not> rotary_emb a then write_back layer i k v (keys_values_wm a)
                         else keys_values_wm a),
                      keys_values_wm_single_env := (keys_values_wm_single_env a)[layer := l']\<rparr>"
      by auto
    then show ?thesis by (simp only: layer_frame_update(1)[OF assms(2)])
  qed
qed

lemma update_layer_internal_frame:
  assumes "update_layer_internal i t z layer a = Inr b" and "m \<noteq> layer"
  shows "layer_frame m a b"
proof -
  from update_layer_internal_Inr[OF assms(1)] obtain l where
    c: "if context_length a - 1 \<le> z
        then \<exists>k v l'. shrink_window a layer (cache (k_cache l)) (cache (v_cache l)) = Inr (k, v, l') \<and>
               b = a\<lparr>keys_values_wm :=
                        (if \<not> rotary_emb a \<and> t = 0 then write_back layer i k v (keys_values_wm a)
                         else keys_values_wm a),
                      keys_values_wm_single_env := (keys_values_wm_single_env a)[layer := l']\<rparr>
        else b = a\<lparr>keys_values_wm_single_env := (keys_values_wm_single_env a)[layer := l]\<rparr>"
    by blast
  show ?thesis
  proof (cases "context_length a - 1 \<le> z")
    case False
    with c have "b = a\<lparr>keys_values_wm_single_env := (keys_values_wm_single_env a)[layer := l]\<rparr>"
      by simp
    then show ?thesis by (simp only: layer_frame_update(2)[OF assms(2)])
  next
    case True
    with c obtain k v l' where
      "b = a\<lparr>keys_values_wm :=
                        (if \<not> rotary_emb a \<and> t = 0 then write_back layer i k v (keys_values_wm a)
                         else keys_values_wm a),
                      keys_values_wm_single_env := (keys_values_wm_single_env a)[layer := l']\<rparr>"
      by auto
    then show ?thesis by (simp only: layer_frame_update(1)[OF assms(2)])
  qed
qed

lemma shrink_window_cong:
  "positional_config a = positional_config b \<Longrightarrow> shrink_window a = shrink_window b"
  by (auto simp: positional_config_def shrink_window_def correct_trimmed_def fun_eq_iff)

lemma update_layer_root_post:
  assumes "update_layer_root i layer a = Inr b"
  shows "layer_post (read_layer_root i) layer a b"
proof -
  from update_layer_root_Inr[OF assms] obtain l where
    l: "read_layer_root i layer a = Inr l" and len: "layer < length (keys_values_wm_single_env a)" and
    c: "if size_c (k_cache l) < context_length a - 1
        then b = a\<lparr>keys_values_wm_single_env := (keys_values_wm_single_env a)[layer := l]\<rparr>
        else \<exists>k v l'. shrink_window a layer (cache (k_cache l)) (cache (v_cache l)) = Inr (k, v, l') \<and>
               b = a\<lparr>keys_values_wm :=
                        (if \<not> rotary_emb a then write_back layer i k v (keys_values_wm a)
                         else keys_values_wm a),
                      keys_values_wm_single_env := (keys_values_wm_single_env a)[layer := l']\<rparr>"
    by blast
  show ?thesis
  proof (cases "size_c (k_cache l) < context_length a - 1")
    case True
    with c have "keys_values_wm_single_env b = (keys_values_wm_single_env a)[layer := l]"
      by simp
    with l len True show ?thesis unfolding layer_post_def by auto
  next
    case False
    with c obtain k v l' where
      sw: "shrink_window a layer (cache (k_cache l)) (cache (v_cache l)) = Inr (k, v, l')" and
      b: "b = a\<lparr>keys_values_wm :=
                        (if \<not> rotary_emb a then write_back layer i k v (keys_values_wm a)
                         else keys_values_wm a),
                      keys_values_wm_single_env := (keys_values_wm_single_env a)[layer := l']\<rparr>"
      by auto
    from b have "keys_values_wm_single_env b = (keys_values_wm_single_env a)[layer := l']"
      by simp
    with l len False sw show ?thesis unfolding layer_post_def by auto
  qed
qed

lemma read_layer_internal_size:
  "read_layer_internal i t z layer a = Inr l \<Longrightarrow> size_c (k_cache l) = z"
  by (auto simp: read_layer_internal_def bind_r_Inr Let_def)

lemma update_layer_internal_post:
  assumes "update_layer_internal i t z layer a = Inr b"
  shows "layer_post (read_layer_internal i t z) layer a b"
proof -
  from update_layer_internal_Inr[OF assms] obtain l where
    l: "read_layer_internal i t z layer a = Inr l" and len: "layer < length (keys_values_wm_single_env a)" and
    c: "if context_length a - 1 \<le> z
        then \<exists>k v l'. shrink_window a layer (cache (k_cache l)) (cache (v_cache l)) = Inr (k, v, l') \<and>
               b = a\<lparr>keys_values_wm :=
                        (if \<not> rotary_emb a \<and> t = 0 then write_back layer i k v (keys_values_wm a)
                         else keys_values_wm a),
                      keys_values_wm_single_env := (keys_values_wm_single_env a)[layer := l']\<rparr>
        else b = a\<lparr>keys_values_wm_single_env := (keys_values_wm_single_env a)[layer := l]\<rparr>"
    by blast
  note z = read_layer_internal_size[OF l]
  show ?thesis
  proof (cases "context_length a - 1 \<le> z")
    case False
    with c have "keys_values_wm_single_env b = (keys_values_wm_single_env a)[layer := l]"
      by simp
    with l len False z show ?thesis unfolding layer_post_def by auto
  next
    case True
    with c obtain k v l' where
      sw: "shrink_window a layer (cache (k_cache l)) (cache (v_cache l)) = Inr (k, v, l')" and
      b: "b = a\<lparr>keys_values_wm :=
                        (if \<not> rotary_emb a \<and> t = 0 then write_back layer i k v (keys_values_wm a)
                         else keys_values_wm a),
                      keys_values_wm_single_env := (keys_values_wm_single_env a)[layer := l']\<rparr>"
      by auto
    from b have "keys_values_wm_single_env b = (keys_values_wm_single_env a)[layer := l']"
      by simp
    with l len True z sw show ?thesis unfolding layer_post_def by auto
  qed
qed

lemma read_layer_root_cong:
  "layer_frame m a a' \<Longrightarrow> read_layer_root i m a = read_layer_root i m a'"
  by (simp add: read_layer_root_def layer_frame_def nth_r_def)

lemma read_layer_internal_cong:
  "layer_frame m a a' \<Longrightarrow> read_layer_internal i t z m a = read_layer_internal i t z m a'"
  by (simp add: read_layer_internal_def layer_frame_def nth_r_def)

lemma layer_frame_refl: "layer_frame m a a"
  by (simp add: layer_frame_def)

lemma layer_frame_trans: "layer_frame m a b \<Longrightarrow> layer_frame m b c \<Longrightarrow> layer_frame m a c"
  by (simp add: layer_frame_def)

lemma layer_post_compat:
  assumes rd: "\<And>x y. layer_frame m x y \<Longrightarrow> rd m x = rd m y"
    and "layer_frame m a a'" and "layer_post rd m a' b" and "layer_frame m b b'"
  shows "layer_post rd m a b'"
proof -
  have cfg: "positional_config a' = positional_config a" using assms(2) by (simp add: layer_frame_def)
  then have cl: "context_length a' = context_length a" by (simp add: positional_config_def)
  have sw: "shrink_window a' = shrink_window a" by (rule shrink_window_cong[OF cfg])
  have r: "rd m a = rd m a'" by (rule rd[OF assms(2)])
  have b: "keys_values_wm_single_env b' ! m = keys_values_wm_single_env b ! m"
    "length (keys_values_wm_single_env b') = length (keys_values_wm_single_env b)"
    using assms(4) by (simp_all add: layer_frame_def)
  show ?thesis
    using assms(3) unfolding layer_post_def r sw cl b by simp
qed

lemma update_layers_at:
  fixes self :: "'a::{zero,plus} WorldModel"
  assumes run: "update_layers is_init_infer i self = Inr self'" and l: "layer < num_layers self"
  shows "layer_post (read_env_layer is_init_infer i) layer self self'"
proof (cases is_init_infer)
  case True
  then have run': "for_each [0..<num_layers self] (update_layer_root i) self = Inr self'"
    using run by (simp add: update_layers_def)
  have "layer_post (read_layer_root i) layer self self'"
  proof (rule for_each_at[OF run', where j = layer and E = "layer_frame layer"
          and Q = "layer_post (read_layer_root i) layer"])
    show "distinct [0..<num_layers self]" by simp
    show "layer \<in> set [0..<num_layers self]" using l by simp
    show "(m = layer \<longrightarrow> layer_post (read_layer_root i) layer a b) \<and>
          (m \<noteq> layer \<longrightarrow> layer_frame layer a b)" if "update_layer_root i m a = Inr b" for m and a b :: "'a WorldModel"
      using that update_layer_root_post[of i m a b] update_layer_root_frame[of i m a b layer] by auto
    show "layer_frame layer a a" for a :: "'a WorldModel" by (rule layer_frame_refl)
    show "layer_frame layer a c" if "layer_frame layer a b" "layer_frame layer b c" for a b c :: "'a WorldModel"
      using that by (rule layer_frame_trans)
    show "layer_post (read_layer_root i) layer a b'"
      if "layer_frame layer a a'" "layer_post (read_layer_root i) layer a' b" "layer_frame layer b b'"
      for a a' b b' :: "'a WorldModel"
    proof -
      have c: "read_layer_root i layer x = read_layer_root i layer y" if "layer_frame layer x y"
        for x y :: "'a WorldModel"
        using that by (rule read_layer_root_cong)
      show ?thesis
        using layer_post_compat[where rd = "read_layer_root i" and m = layer, OF c that] .
    qed
  qed
  then show ?thesis using True by (simp add: layer_post_def read_env_layer_def)
next
  case False
  then obtain sizes mx sz where
    sizes: "keys_values_wm_size_list_current self = Some sizes" and
    mx: "max_r sizes = Inr mx" and sz: "nth_r sizes i = Inr sz" and
    run': "for_each [0..<num_layers self] (update_layer_internal i (mx - sz) sz) self = Inr self'"
    using run by (auto simp: update_layers_def bind_r_Inr split: option.splits)
  have "layer_post (read_layer_internal i (mx - sz) sz) layer self self'"
  proof (rule for_each_at[OF run', where j = layer and E = "layer_frame layer"
          and Q = "layer_post (read_layer_internal i (mx - sz) sz) layer"])
    show "distinct [0..<num_layers self]" by simp
    show "layer \<in> set [0..<num_layers self]" using l by simp
    show "(m = layer \<longrightarrow> layer_post (read_layer_internal i (mx - sz) sz) layer a b) \<and>
          (m \<noteq> layer \<longrightarrow> layer_frame layer a b)"
      if "update_layer_internal i (mx - sz) sz m a = Inr b" for m and a b :: "'a WorldModel"
      using that update_layer_internal_post[of i "mx - sz" sz m a b]
        update_layer_internal_frame[of i "mx - sz" sz m a b layer] by auto
    show "layer_frame layer a a" for a :: "'a WorldModel" by (rule layer_frame_refl)
    show "layer_frame layer a c" if "layer_frame layer a b" "layer_frame layer b c" for a b c :: "'a WorldModel"
      using that by (rule layer_frame_trans)
    show "layer_post (read_layer_internal i (mx - sz) sz) layer a b'"
      if "layer_frame layer a a'" "layer_post (read_layer_internal i (mx - sz) sz) layer a' b"
         "layer_frame layer b b'"
      for a a' b b' :: "'a WorldModel"
    proof -
      have c: "read_layer_internal i (mx - sz) sz layer x = read_layer_internal i (mx - sz) sz layer y"
        if "layer_frame layer x y" for x y :: "'a WorldModel"
        using that by (rule read_layer_internal_cong)
      show ?thesis
        using layer_post_compat[where rd = "read_layer_internal i (mx - sz) sz" and m = layer,
            OF c that] .
    qed
  qed
  then show ?thesis using False sizes mx sz by (simp add: layer_post_def read_env_layer_def)
qed

lemma tensor_iadd_length: "tensor_iadd x y = Inr z \<Longrightarrow> length z = length x"
  by (auto simp: tensor_iadd_def split: if_splits)

lemma correct_trimmed_length:
  "correct_trimmed self layer k v = Inr (kc, vc) \<Longrightarrow> length kc = length k \<and> length vc = length v"
  by (auto simp: correct_trimmed_def bind_r_Inr split: if_splits dest: tensor_iadd_length)

lemma correct_trimmed_rotary:
  "rotary_emb self \<Longrightarrow> correct_trimmed self layer k v = Inr (k, v)"
  by (simp add: correct_trimmed_def)

text \<open>
  C2. When \<open>update_cache_context\<close> processes environment \<open>i\<close> (at the root or at an
  internal node) and the cache it reads for a layer has reached the size
  \<open>context_length - 1\<close>, the layer it leaves in \<open>keys_values_wm_single_env\<close>, which
  is what the store then copies into the pool, has size \<open>context_length - 3\<close> for keys
  and values, and its buffers are the span from position 2 up to position
  \<open>context_length - 1\<close> of the buffers read, with the positional correction applied
  (none under rotary embeddings), followed by 3 zero positions.
\<close>

theorem window_shrink_bound:
  assumes run: "update_layers is_init_infer i self = Inr self'"
    and cl: "2 < context_length self"
    and l: "layer < num_layers self"
    and rd: "read_env_layer is_init_infer i layer self = Inr before"
    and reached: "context_length self - 1 \<le> size_c (k_cache before)"
  shows "\<exists>kc vc.
           correct_trimmed self layer
               (slice 2 (context_length self - 1) (cache (k_cache before)))
               (slice 2 (context_length self - 1) (cache (v_cache before))) = Inr (kc, vc) \<and>
           keys_values_wm_single_env self' ! layer
             = \<lparr>k_cache = \<lparr>cache = kc @ replicate 3 0, size_c = context_length self - 3\<rparr>,
                v_cache = \<lparr>cache = vc @ replicate 3 0, size_c = context_length self - 3\<rparr>\<rparr> \<and>
           length kc = length (slice 2 (context_length self - 1) (cache (k_cache before))) \<and>
           length vc = length (slice 2 (context_length self - 1) (cache (v_cache before))) \<and>
           (rotary_emb self \<longrightarrow>
              kc = slice 2 (context_length self - 1) (cache (k_cache before)) \<and>
              vc = slice 2 (context_length self - 1) (cache (v_cache before)))"
proof -
  from update_layers_at[OF run l] rd reached obtain k v where
    sw: "shrink_window self layer (cache (k_cache before)) (cache (v_cache before))
           = Inr (k, v, keys_values_wm_single_env self' ! layer)"
    unfolding layer_post_def by auto
  then obtain kc vc where
    ct: "correct_trimmed self layer
               (slice 2 (context_length self - 1) (cache (k_cache before)))
               (slice 2 (context_length self - 1) (cache (v_cache before))) = Inr (kc, vc)" and
    res: "keys_values_wm_single_env self' ! layer
             = \<lparr>k_cache = \<lparr>cache = pad_back 3 kc, size_c = context_length self - 3\<rparr>,
                v_cache = \<lparr>cache = pad_back 3 vc, size_c = context_length self - 3\<rparr>\<rparr>"
    unfolding shrink_window_def by (auto simp: bind_r_Inr)
  from correct_trimmed_length[OF ct] correct_trimmed_rotary[of self layer] ct res
  show ?thesis by (auto simp: pad_back_def)
qed

theorem window_shrink_bound_witness:
  "\<exists>self'. update_layers True 0 example_shrink_model = Inr self' \<and>
     keys_values_wm_single_env self' ! 0
       = \<lparr>k_cache = \<lparr>cache = [0, 0, 0, 0], size_c = 1\<rparr>,
          v_cache = \<lparr>cache = [1, 0, 0, 0], size_c = 1\<rparr>\<rparr>"
proof -
  have "\<not> isl (update_layers True 0 example_shrink_model)"
    by code_simp
  then obtain self' where run: "update_layers True 0 example_shrink_model = Inr self'"
    using not_isl_Inr by blast
  have cl: "context_length example_shrink_model = 4" by code_simp
  have h: "2 < context_length example_shrink_model" "0 < num_layers example_shrink_model"
    by code_simp+
  have rd: "read_env_layer True 0 0 example_shrink_model
              = Inr \<lparr>k_cache = \<lparr>cache = [1, 2, 3, 0], size_c = 3\<rparr>,
                     v_cache = \<lparr>cache = [5, 6, 7, 0], size_c = 3\<rparr>\<rparr>"
    by code_simp
  have reached: "context_length example_shrink_model - 1
                   \<le> size_c (k_cache \<lparr>k_cache = \<lparr>cache = [1, 2, 3, 0 :: int], size_c = 3\<rparr>,
                                       v_cache = \<lparr>cache = [5, 6, 7, 0], size_c = 3\<rparr>\<rparr>)"
    by (simp add: cl)
  have ct: "correct_trimmed example_shrink_model 0 (slice 2 (4 - 1) [1, 2, 3, 0]) (slice 2 (4 - 1) [5, 6, 7, 0])
              = Inr ([0], [1])"
    by code_simp
  from window_shrink_bound[OF run h rd reached] obtain kc vc where
    "correct_trimmed example_shrink_model 0 (slice 2 (4 - 1) [1, 2, 3, 0]) (slice 2 (4 - 1) [5, 6, 7, 0])
       = Inr (kc, vc)"
    and res: "keys_values_wm_single_env self' ! 0
             = \<lparr>k_cache = \<lparr>cache = kc @ replicate 3 0, size_c = 4 - 3\<rparr>,
                v_cache = \<lparr>cache = vc @ replicate 3 0, size_c = 4 - 3\<rparr>\<rparr>"
    unfolding cl by auto
  then have "kc = [0]" "vc = [1]" unfolding ct by simp_all
  with res run show ?thesis by (simp add: numeral_3_eq_3)
qed

subsection \<open>Trim-and-pad\<close>

lemma max_r_Max: "max_r xs = Inr M \<Longrightarrow> xs \<noteq> [] \<and> M = Max (set xs)"
proof (cases xs)
  case Nil
  assume "max_r xs = Inr M"
  with Nil show ?thesis by (simp add: max_r_def)
next
  case (Cons a list)
  assume "max_r xs = Inr M"
  with Cons have "M = fold max list a" by (simp add: max_r_def)
  with Cons show ?thesis using Max.set_eq_fold[of a list] by simp
qed

lemma stack_rows_Inr: "stack_rows ts = Inr r \<Longrightarrow> r = ts"
  by (cases ts) (auto simp: stack_rows_def split: if_splits)

lemma trim_and_pad_layer_Inr:
  assumes run: "trim_and_pad_layer M layer a = Inr b"
  shows "\<exists>kvs. map_r (trim_and_pad_item a M layer) (enumerate 0 (keys_values_wm_list a)) = Inr kvs \<and>
           layer < length (keys_values_wm a) \<and>
           b = a\<lparr>keys_values_wm := (keys_values_wm a)
                   [layer := \<lparr>k_cache = \<lparr>cache = map fst kvs, size_c = M\<rparr>,
                              v_cache = \<lparr>cache = map snd kvs, size_c = M\<rparr>\<rparr>]\<rparr>"
proof -
  from run obtain kvs where
    kvs: "map_r (trim_and_pad_item a M layer) (enumerate 0 (keys_values_wm_list a)) = Inr kvs"
    unfolding trim_and_pad_layer_def
    by (cases "map_r (trim_and_pad_item a M layer) (enumerate 0 (keys_values_wm_list a))") simp_all
  from run kvs obtain k where k: "stack_rows (map fst kvs) = Inr k"
    unfolding trim_and_pad_layer_def by (cases "stack_rows (map fst kvs)") simp_all
  from run kvs k obtain v where v: "stack_rows (map snd kvs) = Inr v"
    unfolding trim_and_pad_layer_def by (cases "stack_rows (map snd kvs)") simp_all
  have kk: "k = map fst kvs" and vv: "v = map snd kvs"
    using stack_rows_Inr[OF k] stack_rows_Inr[OF v] by simp_all
  from run kvs k v obtain kv where
    kv: "set_r (keys_values_wm a) layer
               \<lparr>k_cache = \<lparr>cache = k, size_c = M\<rparr>, v_cache = \<lparr>cache = v, size_c = M\<rparr>\<rparr> = Inr kv"
    and b: "b = a\<lparr>keys_values_wm := kv\<rparr>"
    unfolding trim_and_pad_layer_def
    by (cases "set_r (keys_values_wm a) layer
               \<lparr>k_cache = \<lparr>cache = k, size_c = M\<rparr>, v_cache = \<lparr>cache = v, size_c = M\<rparr>\<rparr>") simp_all
  from kv have "layer < length (keys_values_wm a)"
    and "kv = (keys_values_wm a)[layer := \<lparr>k_cache = \<lparr>cache = k, size_c = M\<rparr>,
                                          v_cache = \<lparr>cache = v, size_c = M\<rparr>\<rparr>]"
    by (simp_all add: set_r_Inr)
  with kvs b kk vv show ?thesis by blast
qed

lemma trim_and_pad_layer_frame:
  assumes "trim_and_pad_layer M l a = Inr b" and "l \<noteq> layer"
  shows "tp_frame layer a b"
proof -
  from trim_and_pad_layer_Inr[OF assms(1)] obtain x where
    "b = a\<lparr>keys_values_wm := (keys_values_wm a)[l := x]\<rparr>" by blast
  then show ?thesis using assms(2) by (simp add: tp_frame_def)
qed

lemma trim_and_pad_layer_post:
  assumes "trim_and_pad_layer M layer a = Inr b"
  shows "tp_post M layer a b"
proof -
  from trim_and_pad_layer_Inr[OF assms(1)] obtain kvs where
    kvs: "map_r (trim_and_pad_item a M layer) (enumerate 0 (keys_values_wm_list a)) = Inr kvs"
    and len: "layer < length (keys_values_wm a)"
    and b: "b = a\<lparr>keys_values_wm := (keys_values_wm a)
                   [layer := \<lparr>k_cache = \<lparr>cache = map fst kvs, size_c = M\<rparr>,
                              v_cache = \<lparr>cache = map snd kvs, size_c = M\<rparr>\<rparr>]\<rparr>"
    by blast
  from b len have
    "layer < length (keys_values_wm b)"
    "keys_values_wm b ! layer = \<lparr>k_cache = \<lparr>cache = map fst kvs, size_c = M\<rparr>,
                                 v_cache = \<lparr>cache = map snd kvs, size_c = M\<rparr>\<rparr>"
    "keys_values_wm_size_list b = keys_values_wm_size_list a"
    by simp_all
  with kvs show ?thesis unfolding tp_post_def by blast
qed

lemma trim_and_pad_item_cong:
  "tp_frame layer a a' \<Longrightarrow> trim_and_pad_item a M layer = trim_and_pad_item a' M layer"
  by (auto simp: tp_frame_def trim_and_pad_item_def deref_def fun_eq_iff split: kv_ref.splits)

lemma tp_frame_refl: "tp_frame layer a a"
  by (simp add: tp_frame_def)

lemma tp_frame_trans: "tp_frame layer a b \<Longrightarrow> tp_frame layer b c \<Longrightarrow> tp_frame layer a c"
  by (simp add: tp_frame_def)

lemma tp_post_compat:
  assumes "tp_frame layer a a'" and "tp_post M layer a' b" and "tp_frame layer b b'"
  shows "tp_post M layer a b'"
proof -
  have i: "trim_and_pad_item a M layer = trim_and_pad_item a' M layer"
    by (rule trim_and_pad_item_cong[OF assms(1)])
  have l: "keys_values_wm_list a' = keys_values_wm_list a"
    "keys_values_wm_size_list a' = keys_values_wm_size_list a"
    using assms(1) by (simp_all add: tp_frame_def)
  have b: "keys_values_wm b' ! layer = keys_values_wm b ! layer"
    "length (keys_values_wm b') = length (keys_values_wm b)"
    "keys_values_wm_size_list b' = keys_values_wm_size_list b"
    using assms(3) by (simp_all add: tp_frame_def)
  show ?thesis
    using assms(2) unfolding tp_post_def i l b by simp
qed

lemma trim_and_pad_at:
  fixes self :: "'a::zero WorldModel"
  assumes run: "for_each [0..<num_layers self] (trim_and_pad_layer M) self = Inr self'"
    and l: "layer < num_layers self"
  shows "tp_post M layer self self'"
proof (rule for_each_at[OF run, where j = layer and E = "tp_frame layer" and Q = "tp_post M layer"])
  show "distinct [0..<num_layers self]" by simp
  show "layer \<in> set [0..<num_layers self]" using l by simp
  show "(m = layer \<longrightarrow> tp_post M layer a b) \<and> (m \<noteq> layer \<longrightarrow> tp_frame layer a b)"
    if "trim_and_pad_layer M m a = Inr b" for m and a b :: "'a WorldModel"
    using that trim_and_pad_layer_post[of M m a b] trim_and_pad_layer_frame[of M m a b layer] by auto
  show "tp_frame layer a a" for a :: "'a WorldModel" by (rule tp_frame_refl)
  show "tp_frame layer a c" if "tp_frame layer a b" "tp_frame layer b c" for a b c :: "'a WorldModel"
    using that by (rule tp_frame_trans)
  show "tp_post M layer a b'" if "tp_frame layer a a'" "tp_post M layer a' b" "tp_frame layer b b'"
    for a a' b b' :: "'a WorldModel"
    using that by (rule tp_post_compat)
qed

lemma trim_and_pad_sizes:
  fixes self :: "'a::zero WorldModel"
  assumes run: "for_each js (trim_and_pad_layer M) self = Inr self'"
  shows "keys_values_wm_size_list self' = keys_values_wm_size_list self"
proof (rule for_each_invariant[OF run, where P = "\<lambda>s. keys_values_wm_size_list s = keys_values_wm_size_list self"])
  show "keys_values_wm_size_list self = keys_values_wm_size_list self" by simp
  fix j and a b :: "'a WorldModel"
  assume "keys_values_wm_size_list a = keys_values_wm_size_list self"
    and "trim_and_pad_layer M j a = Inr b"
  then show "keys_values_wm_size_list b = keys_values_wm_size_list self"
    using trim_and_pad_layer_Inr[of M j a b] by auto
qed

lemma enumerate_nth: "idx < length xs \<Longrightarrow> enumerate 0 xs ! idx = (idx, xs ! idx)"
  by (simp add: nth_enumerate_eq)

lemma padded_row:
  fixes buf :: "'a::zero list"
  assumes s: "s \<le> M" and cap: "M \<le> length buf"
  defines "row \<equiv> (if M - s > 0 then pad_front (M - s) (drop_last (M - s) buf) else buf)"
  shows "take (M - s) row = replicate (M - s) 0" and "slice (M - s) M row = take s buf"
    and "length row = length buf"
proof -
  show "take (M - s) row = replicate (M - s) 0"
    by (simp add: row_def pad_front_def)
  show "slice (M - s) M row = take s buf"
    using s cap by (auto simp: row_def pad_front_def drop_last_def slice_def min_def)
  show "length row = length buf"
    using s cap by (simp add: row_def pad_front_def drop_last_def)
qed

text \<open>
  C1, amended. After \<open>trim_and_pad_kv_cache\<close>, every layer of the batched cache reports
  the size \<open>max(s_1..s_B)\<close>; the row of item \<open>idx\<close> starts with \<open>max - s_idx\<close> zero
  positions and holds the item's first \<open>s_idx\<close> positions, unchanged, right after them
  (the last \<open>s_idx\<close> positions of the aligned region of length \<open>max\<close>), provided
  \<open>max\<close> is within the capacity of the item's buffers. The list of sizes that is returned
  (and that the callers store as \<open>keys_values_wm_size_list_current\<close>) is the list
  \<open>s_1..s_B\<close> itself, unchanged: \<open>update_cache_context\<close> needs each environment's own
  size to take the front padding away again.
\<close>

theorem trim_and_pad_aligns:
  fixes self :: "'a::zero WorldModel"
  assumes run: "trim_and_pad_kv_cache is_init_infer self = Inr (sizes, self')"
    and layer: "layer < num_layers self"
    and idx: "idx < length (keys_values_wm_list self)"
    and src: "deref self (keys_values_wm_list self ! idx) = Inr kv"
    and capk: "Max (set (keys_values_wm_size_list self)) \<le> length (cache (k_cache (kv ! layer)))"
    and capv: "Max (set (keys_values_wm_size_list self)) \<le> length (cache (v_cache (kv ! layer)))"
  shows "sizes = keys_values_wm_size_list self \<and>
         keys_values_wm_size_list self' = keys_values_wm_size_list self \<and>
         size_c (k_cache (keys_values_wm self' ! layer)) = Max (set (keys_values_wm_size_list self)) \<and>
         size_c (v_cache (keys_values_wm self' ! layer)) = Max (set (keys_values_wm_size_list self)) \<and>
         (let M = Max (set (keys_values_wm_size_list self));
              s = keys_values_wm_size_list self ! idx;
              k_row = cache (k_cache (keys_values_wm self' ! layer)) ! idx;
              v_row = cache (v_cache (keys_values_wm self' ! layer)) ! idx
          in s \<le> M \<and>
             take (M - s) k_row = replicate (M - s) 0 \<and>
             slice (M - s) M k_row = take s (cache (k_cache (kv ! layer))) \<and>
             take (M - s) v_row = replicate (M - s) 0 \<and>
             slice (M - s) M v_row = take s (cache (v_cache (kv ! layer))))"
proof -
  let ?M = "Max (set (keys_values_wm_size_list self))"
  from run obtain M where M: "max_r (keys_values_wm_size_list self) = Inr M"
    and loop: "for_each [0..<num_layers self] (trim_and_pad_layer M) self = Inr self'"
    and sz: "sizes = keys_values_wm_size_list self'"
    by (auto simp: trim_and_pad_kv_cache_def bind_r_Inr)
  have MM: "M = ?M" and ne: "keys_values_wm_size_list self \<noteq> []"
    using max_r_Max[OF M] by simp_all
  have same: "keys_values_wm_size_list self' = keys_values_wm_size_list self"
    by (rule trim_and_pad_sizes[OF loop])
  from trim_and_pad_at[OF loop layer] obtain kvs where
    kvs: "map_r (trim_and_pad_item self M layer) (enumerate 0 (keys_values_wm_list self)) = Inr kvs"
    and res: "keys_values_wm self' ! layer
          = \<lparr>k_cache = \<lparr>cache = map fst kvs, size_c = M\<rparr>,
             v_cache = \<lparr>cache = map snd kvs, size_c = M\<rparr>\<rparr>"
    unfolding tp_post_def by blast
  from map_r_Inr[OF kvs] idx have
    len: "length kvs = length (keys_values_wm_list self)" and
    item: "trim_and_pad_item self M layer (idx, keys_values_wm_list self ! idx) = Inr (kvs ! idx)"
    by (simp_all add: enumerate_nth)
  from item src obtain l s where
    l: "nth_r kv layer = Inr l" and s: "nth_r (keys_values_wm_size_list self) idx = Inr s" and
    r: "kvs ! idx = (if M - s > 0
                     then (pad_front (M - s) (drop_last (M - s) (cache (k_cache l))),
                           pad_front (M - s) (drop_last (M - s) (cache (v_cache l))))
                     else (cache (k_cache l), cache (v_cache l)))"
    by (auto simp: trim_and_pad_item_def bind_r_Inr Let_def split: if_splits)
  from l have ll: "l = kv ! layer" by (simp add: nth_r_Inr)
  from s have si: "idx < length (keys_values_wm_size_list self)"
    and ss: "s = keys_values_wm_size_list self ! idx"
    by (simp_all add: nth_r_Inr)
  have sM: "s \<le> M" using si ss MM by simp
  have rk: "cache (k_cache (keys_values_wm self' ! layer)) ! idx
              = (if M - s > 0 then pad_front (M - s) (drop_last (M - s) (cache (k_cache (kv ! layer))))
                 else cache (k_cache (kv ! layer)))"
    using res r idx len ll by simp
  have rv: "cache (v_cache (keys_values_wm self' ! layer)) ! idx
              = (if M - s > 0 then pad_front (M - s) (drop_last (M - s) (cache (v_cache (kv ! layer))))
                 else cache (v_cache (kv ! layer)))"
    using res r idx len ll by simp
  have ck: "M \<le> length (cache (k_cache (kv ! layer)))" using capk MM by simp
  have cv: "M \<le> length (cache (v_cache (kv ! layer)))" using capv MM by simp
  note pk = padded_row(1,2)[OF sM ck, folded rk]
  note pv = padded_row(1,2)[OF sM cv, folded rv]
  show ?thesis
    using sz same res pk pv sM unfolding MM[symmetric] ss[symmetric] Let_def by simp
qed

text \<open>
  C1, as stated, fails in its last part: for two environments of sizes 1 and 2 the list
  returned is \<open>[1, 2]\<close>, not \<open>[2, 2]\<close>.
\<close>

theorem trim_and_pad_sizes_counterexample:
  "map_sum id fst (trim_and_pad_kv_cache False example_batch_model) = Inr [1, 2] \<and>
   map_sum id fst (trim_and_pad_kv_cache False example_batch_model) \<noteq> Inr [2, 2]"
proof -
  have "map_sum id fst (trim_and_pad_kv_cache False example_batch_model) = Inr [1, 2]"
    by code_simp
  then show ?thesis by simp
qed

theorem trim_and_pad_aligns_witness:
  "\<exists>sizes self'. trim_and_pad_kv_cache False example_batch_model = Inr (sizes, self') \<and>
     sizes = [1, 2] \<and>
     size_c (k_cache (keys_values_wm self' ! 0)) = 2 \<and>
     take 1 (cache (k_cache (keys_values_wm self' ! 0)) ! 0) = [0] \<and>
     slice 1 2 (cache (k_cache (keys_values_wm self' ! 0)) ! 0) = [7]"
proof -
  have "\<not> isl (trim_and_pad_kv_cache False example_batch_model)"
    by code_simp
  then obtain sizes self' where
    run: "trim_and_pad_kv_cache False example_batch_model = Inr (sizes, self')"
    using not_isl_Inr by fastforce
  have sl: "keys_values_wm_size_list example_batch_model = [1, 2]" by code_simp
  have h: "0 < num_layers example_batch_model"
    "0 < length (keys_values_wm_list example_batch_model)"
    by code_simp+
  have src: "deref example_batch_model (keys_values_wm_list example_batch_model ! 0)
               = Inr [\<lparr>k_cache = \<lparr>cache = [7, 0, 0, 0], size_c = 1\<rparr>,
                       v_cache = \<lparr>cache = [8, 0, 0, 0], size_c = 1\<rparr>\<rparr>]"
    by code_simp
  have mx: "Max (set [1, 2 :: nat]) = 2" by simp
  have cap:
    "Max (set (keys_values_wm_size_list example_batch_model))
       \<le> length (cache (k_cache ([\<lparr>k_cache = \<lparr>cache = [7, 0, 0, 0 :: int], size_c = 1\<rparr>,
                       v_cache = \<lparr>cache = [8, 0, 0, 0], size_c = 1\<rparr>\<rparr>] ! 0)))"
    "Max (set (keys_values_wm_size_list example_batch_model))
       \<le> length (cache (v_cache ([\<lparr>k_cache = \<lparr>cache = [7, 0, 0, 0 :: int], size_c = 1\<rparr>,
                       v_cache = \<lparr>cache = [8, 0, 0, 0], size_c = 1\<rparr>\<rparr>] ! 0)))"
    unfolding sl mx by simp_all
  from trim_and_pad_aligns[OF run h src cap] have
    "sizes = [1, 2] \<and>
     size_c (k_cache (keys_values_wm self' ! 0)) = 2 \<and>
     take 1 (cache (k_cache (keys_values_wm self' ! 0)) ! 0) = [0] \<and>
     slice 1 2 (cache (k_cache (keys_values_wm self' ! 0)) ! 0) = [7]"
    unfolding sl mx Let_def by simp
  with run show ?thesis by blast
qed

subsection \<open>Memoised lookup\<close>

lemma custom_copy_wm_Inr:
  assumes "custom_copy_kv_cache_to_shared_wm src_kv s = Inr (r, s')"
  shows "\<exists>dst next. shared_pool_index_wm s < length (shared_pool_wm s) \<and>
           fill_slot src_kv (shared_pool_wm s ! shared_pool_index_wm s) = Inr dst \<and>
           r = Wm_slot (shared_pool_index_wm s) \<and>
           s' = s\<lparr>shared_pool_wm := (shared_pool_wm s)[shared_pool_index_wm s := Some dst],
                   shared_pool_index_wm := next\<rparr>"
proof -
  from assms obtain slot where
    slot: "nth_r (shared_pool_wm s) (shared_pool_index_wm s) = Inr slot"
    unfolding custom_copy_kv_cache_to_shared_wm_def
    by (cases "nth_r (shared_pool_wm s) (shared_pool_index_wm s)") simp_all
  from assms slot obtain dst where dst: "fill_slot src_kv slot = Inr dst"
    unfolding custom_copy_kv_cache_to_shared_wm_def
    by (cases "fill_slot src_kv slot") simp_all
  from assms slot dst obtain "next" where
    n: "mod_r (shared_pool_index_wm s + 1) (shared_pool_size_wm s) = Inr next"
    unfolding custom_copy_kv_cache_to_shared_wm_def
    by (cases "mod_r (shared_pool_index_wm s + 1) (shared_pool_size_wm s)") simp_all
  from assms slot dst n have
    "r = Wm_slot (shared_pool_index_wm s)"
    "s' = s\<lparr>shared_pool_wm := (shared_pool_wm s)[shared_pool_index_wm s := Some dst],
            shared_pool_index_wm := next\<rparr>"
    unfolding custom_copy_kv_cache_to_shared_wm_def by simp_all
  with slot dst show ?thesis by (auto simp: nth_r_Inr)
qed

lemma copy_layer_fits:
  assumes "length (cache (k_cache d)) = length (cache (k_cache s))"
    and "length (cache (v_cache d)) = length (cache (v_cache s))"
  shows "copy_layer s d = Inr s"
  using assms by (simp add: copy_layer_def tensor_copy_def)

lemma copy_layers_fits:
  "buffer_lengths src = buffer_lengths dst \<Longrightarrow> copy_layers src dst = Inr src"
proof (induction src arbitrary: dst)
  case Nil
  then show ?case by (simp add: buffer_lengths_def)
next
  case (Cons s ss)
  then obtain d ds where dst: "dst = d # ds"
    by (cases dst) (simp_all add: buffer_lengths_def)
  from Cons.prems dst have
    h: "length (cache (k_cache d)) = length (cache (k_cache s))"
       "length (cache (v_cache d)) = length (cache (v_cache s))"
    and t: "buffer_lengths ss = buffer_lengths ds"
    by (simp_all add: buffer_lengths_def)
  show ?case
    unfolding dst by (simp add: copy_layer_fits[OF h] Cons.IH[OF t])
qed

lemma buffer_lengths_new:
  "buffer_lengths (new_KeysValues n layers :: 'a::zero list KeysValues) = replicate layers (n, n)"
  by (simp add: buffer_lengths_def new_KeysValues_def new_KVCache_def)

lemma fill_slot_fits:
  fixes kv :: "'a::zero list KeysValues"
  assumes run: "fill_slot kv slot = Inr dst" and fit: "fits kv slot"
  shows "dst = kv"
proof -
  from run obtain first where first: "nth_r kv 0 = Inr first"
    unfolding fill_slot_def by (cases "nth_r kv 0") simp_all
  then have hd: "first = hd kv"
    by (cases kv) (simp_all add: nth_r_def)
  let ?dst = "case slot of
                None \<Rightarrow> new_KeysValues (length (cache (k_cache first))) (length kv)
              | Some old \<Rightarrow> old"
  from run first have c: "copy_layers kv ?dst = Inr dst"
    unfolding fill_slot_def by (simp add: Let_def)
  have "buffer_lengths kv = buffer_lengths ?dst"
    using fit unfolding fits_def hd by (cases slot) (simp_all add: buffer_lengths_new)
  from copy_layers_fits[OF this] c show ?thesis by simp
qed

lemma append_hit_result:
  fixes s :: "'a::zero WorldModel"
  assumes "append_hit kv (s\<lparr>hit_count := hit_count s + 1\<rparr>) = Inr s'"
  shows "hit_result kv s s'"
proof -
  let ?s = "s\<lparr>hit_count := hit_count s + 1\<rparr>"
  from assms obtain r s1 where c: "custom_copy_kv_cache_to_shared_wm kv ?s = Inr (r, s1)"
    unfolding append_hit_def
    by (cases "custom_copy_kv_cache_to_shared_wm kv ?s") auto
  from assms c obtain sz where sz: "size_kv kv = Inr sz"
    unfolding append_hit_def by (cases "size_kv kv") simp_all
  then obtain l ls where kv: "kv = l # ls" and szl: "sz = size_c (k_cache l)"
    by (cases kv) (simp_all add: size_kv_def)
  from assms c sz have s': "s' = s1\<lparr>keys_values_wm_list := keys_values_wm_list s1 @ [r],
               keys_values_wm_size_list := keys_values_wm_size_list s1 @ [sz]\<rparr>"
    unfolding append_hit_def by simp
  from custom_copy_wm_Inr[OF c] obtain dst "next" where
    lt: "shared_pool_index_wm s < length (shared_pool_wm s)" and
    dst: "fill_slot kv (shared_pool_wm s ! shared_pool_index_wm s) = Inr dst" and
    r: "r = Wm_slot (shared_pool_index_wm s)" and
    s1: "s1 = ?s\<lparr>shared_pool_wm := (shared_pool_wm ?s)[shared_pool_index_wm ?s := Some dst],
                   shared_pool_index_wm := next\<rparr>"
    by auto
  have slot: "shared_pool_wm s' ! shared_pool_index_wm s = Some dst"
    using lt by (simp add: s' s1)
  have fit: "fits kv (shared_pool_wm s ! shared_pool_index_wm s) \<longrightarrow> dst = kv"
    using fill_slot_fits[OF dst] by blast
  show ?thesis
    unfolding hit_result_def slot using fit lt r kv szl by (simp add: s' s1)
qed

lemma hit_result_fits:
  assumes "hit_result kv (s\<lparr>total_query_count := n\<rparr>) s'"
  shows "fits kv (shared_pool_wm s ! shared_pool_index_wm s) \<longrightarrow>
         keys_values_wm_list s' = keys_values_wm_list s @ [Wm_slot (shared_pool_index_wm s)] \<and>
         keys_values_wm_size_list s' = keys_values_wm_size_list s @ [size_c (k_cache (hd kv))] \<and>
         hit_count s' = hit_count s + 1 \<and>
         shared_pool_wm s' ! shared_pool_index_wm s = Some kv"
  using assms unfolding hit_result_def by auto

lemma forward_single_Inr:
  assumes "forward_single fwd inp sp s = Inr (out, s')"
  shows "\<exists>kv kv'. fwd s inp (Some (unsqueeze_kv (keys_values_wm_single_env s))) True sp None = Inr (out, kv) \<and>
           squeeze_kv kv = Inr kv' \<and> s' = s\<lparr>keys_values_wm_single_env := kv'\<rparr>"
proof -
  let ?c = "fwd s inp (Some (unsqueeze_kv (keys_values_wm_single_env s))) True sp None"
  from assms obtain o1 kv where f: "?c = Inr (o1, kv)"
    unfolding forward_single_def by (cases ?c) auto
  from assms f obtain kv' where q: "squeeze_kv kv = Inr kv'"
    unfolding forward_single_def by (cases "squeeze_kv kv") simp_all
  from assms f q have "o1 = out" "s' = s\<lparr>keys_values_wm_single_env := kv'\<rparr>"
    unfolding forward_single_def by simp_all
  with f q show ?thesis by blast
qed

lemma append_miss_result:
  assumes "append_miss fwd state_single_env sp s = Inr s'"
  shows "miss_result fwd state_single_env sp s s'"
proof -
  from assms obtain spa where spa: "sp = Inr spa"
    unfolding append_miss_def by (cases sp) simp_all
  let ?f = "forward_single fwd (Obs_embeddings [state_single_env]) (Pos_int spa) (fresh_single_env s)"
  from assms spa obtain out s1 where f: "?f = Inr (out, s1)"
    unfolding append_miss_def by (cases ?f) auto
  from assms spa f have s': "s' = s1\<lparr>keys_values_wm_list := keys_values_wm_list s1 @ [Single_env],
               keys_values_wm_size_list := keys_values_wm_size_list s1 @ [1]\<rparr>"
    unfolding append_miss_def by simp
  from forward_single_Inr[OF f] obtain kv kv' where
    fw: "fwd (fresh_single_env s) (Obs_embeddings [state_single_env])
           (Some (unsqueeze_kv (keys_values_wm_single_env (fresh_single_env s)))) True (Pos_int spa) None
           = Inr (out, kv)" and
    sq: "squeeze_kv kv = Inr kv'" and
    s1: "s1 = (fresh_single_env s)\<lparr>keys_values_wm_single_env := kv'\<rparr>"
    by blast
  have fr: "keys_values_wm_single_env (fresh_single_env s)
              = new_KeysValues (context_length s) (num_layers s)"
    "keys_values_wm_list (fresh_single_env s) = map (detach s) (keys_values_wm_list s)"
    "keys_values_wm_size_list (fresh_single_env s) = keys_values_wm_size_list s"
    "hit_count (fresh_single_env s) = hit_count s"
    by (simp_all add: fresh_single_env_def)
  show ?thesis
    unfolding miss_result_def using spa fw sq fr by (auto simp: s' s1)
qed

lemma lookup_init_query:
  "lookup_init (s\<lparr>total_query_count := n\<rparr>) index key = lookup_init s index key"
  by (simp add: lookup_init_def cong: option.case_cong if_cong)

lemma lookup_recur_query:
  "lookup_recur (s\<lparr>total_query_count := n\<rparr>) key = lookup_recur s key"
  by (simp add: lookup_recur_def cong: option.case_cong if_cong)

lemma new_KeysValues_empty:
  "list_all (\<lambda>l. size_c (k_cache l) = 0 \<and> size_c (v_cache l) = 0) (new_KeysValues max_tokens layers)"
  by (simp add: new_KeysValues_def new_KVCache_def list_all_iff)

lemma lookup_init_Inr:
  assumes "lookup_init s index key = Inr m"
  shows "index < length (past_kv_cache_init_infer_envs s)"
    and "m = (case (past_kv_cache_init_infer_envs s ! index) key of
                None \<Rightarrow> None
              | Some cache_index \<Rightarrow> shared_pool_init_infer s ! index ! cache_index)"
    and "\<forall>cache_index. (past_kv_cache_init_infer_envs s ! index) key = Some cache_index \<longrightarrow>
           index < length (shared_pool_init_infer s) \<and>
           cache_index < length (shared_pool_init_infer s ! index)"
proof -
  from assms obtain d where d: "nth_r (past_kv_cache_init_infer_envs s) index = Inr d"
    unfolding lookup_init_def by (cases "nth_r (past_kv_cache_init_infer_envs s) index") simp_all
  then have d': "d = past_kv_cache_init_infer_envs s ! index"
    by (simp add: nth_r_Inr)
  from d show "index < length (past_kv_cache_init_infer_envs s)"
    by (simp add: nth_r_Inr)
  have "m = (case d key of None \<Rightarrow> None
             | Some cache_index \<Rightarrow> shared_pool_init_infer s ! index ! cache_index) \<and>
        (\<forall>cache_index. d key = Some cache_index \<longrightarrow>
           index < length (shared_pool_init_infer s) \<and>
           cache_index < length (shared_pool_init_infer s ! index))"
  proof (cases "d key")
    case None
    with assms d show ?thesis by (simp add: lookup_init_def)
  next
    case (Some ci)
    with assms d have
      r: "bind_r (nth_r (shared_pool_init_infer s) index) (\<lambda>pool. nth_r pool ci) = Inr m"
      by (simp add: lookup_init_def)
    then obtain pool where p: "nth_r (shared_pool_init_infer s) index = Inr pool"
      by (cases "nth_r (shared_pool_init_infer s) index") simp_all
    with r have "nth_r pool ci = Inr m" by simp
    with p Some show ?thesis by (auto simp: nth_r_Inr)
  qed
  then show "m = (case (past_kv_cache_init_infer_envs s ! index) key of
                None \<Rightarrow> None
              | Some cache_index \<Rightarrow> shared_pool_init_infer s ! index ! cache_index)"
    and "\<forall>cache_index. (past_kv_cache_init_infer_envs s ! index) key = Some cache_index \<longrightarrow>
           index < length (shared_pool_init_infer s) \<and>
           cache_index < length (shared_pool_init_infer s ! index)"
    unfolding d' by simp_all
qed

text \<open>
  C3. Outside the reanalyze phase, one step of \<open>retrieve_or_generate_kvcache\<close> that
  returns has looked the state's hash up in the environment's init-phase index first: when
  that index holds a slot number for the hash and the slot of the environment's init pool
  holds a cache, this cache is the one used, whatever the recurrent-phase index holds.
  Only when that finds none is the shared recurrent-phase index consulted: when it holds a
  slot number for the hash, within the recurrent pool, and the slot holds a cache, this
  cache is used. Using a cache means that it is copied into the working pool and that its
  size is recorded. When both find none, the step is a miss: the forward pass runs on a
  fresh context, all of whose layers have size 0, and the size recorded for the
  environment is 1. A slot number found in the init-phase index lies within the pool.
\<close>

theorem lookup_order:
  fixes self :: "'a::zero WorldModel"
  assumes run: "retrieve_or_generate_step xxh64 fwd latent start_pos index self = Inr self'"
    and phase: "\<not> reanalyze_phase self"
  shows "(let cache_key = hash_state xxh64 (latent ! index);
              queried = self\<lparr>total_query_count := total_query_count self + 1\<rparr>;
              init_hit = (case (past_kv_cache_init_infer_envs self ! index) cache_key of
                            None \<Rightarrow> None
                          | Some cache_index \<Rightarrow> shared_pool_init_infer self ! index ! cache_index);
              recur_hit = (case past_kv_cache_recurrent_infer self cache_key of
                             None \<Rightarrow> None
                           | Some idx \<Rightarrow> if idx < length (shared_pool_recur_infer self)
                                         then shared_pool_recur_infer self ! idx else None)
          in index < length latent \<and> index < length (past_kv_cache_init_infer_envs self) \<and>
             (\<forall>cache_index. (past_kv_cache_init_infer_envs self ! index) cache_key = Some cache_index \<longrightarrow>
                index < length (shared_pool_init_infer self) \<and>
                cache_index < length (shared_pool_init_infer self ! index)) \<and>
             (case init_hit of
                Some kv \<Rightarrow> hit_result kv queried self'
              | None \<Rightarrow>
                  (case recur_hit of
                     Some kv \<Rightarrow> hit_result kv queried self'
                   | None \<Rightarrow> miss_result fwd (latent ! index) (start_pos_item start_pos index)
                               queried self'))) \<and>
         list_all (\<lambda>l. size_c (k_cache l) = 0 \<and> size_c (v_cache l) = 0)
           (new_KeysValues (context_length self) (num_layers self) :: 'a list KeysValues)"
proof -
  let ?q = "self\<lparr>total_query_count := total_query_count self + 1\<rparr>"
  let ?key = "hash_state xxh64 (latent ! index)"
  let ?init_hit = "case (past_kv_cache_init_infer_envs self ! index) ?key of
                     None \<Rightarrow> None
                   | Some cache_index \<Rightarrow> shared_pool_init_infer self ! index ! cache_index"
  let ?recur_hit = "case past_kv_cache_recurrent_infer self ?key of
                      None \<Rightarrow> None
                    | Some idx \<Rightarrow> if idx < length (shared_pool_recur_infer self)
                                  then shared_pool_recur_infer self ! idx else None"
  from run obtain st where st: "nth_r latent index = Inr st"
    unfolding retrieve_or_generate_step_def Let_def by (cases "nth_r latent index") simp_all
  then have idx: "index < length latent" and st': "st = latent ! index"
    by (simp_all add: nth_r_Inr)
  from run st obtain m where m: "retrieve_matched ?q index ?key = Inr m"
    unfolding retrieve_or_generate_step_def Let_def st'
    by (cases "retrieve_matched ?q index ?key") simp_all
  have ph: "reanalyze_phase ?q = False" using phase by simp
  from run have body:
    "(case m of
        Some kv \<Rightarrow> append_hit kv (?q\<lparr>hit_count := hit_count ?q + 1\<rparr>)
      | None \<Rightarrow> append_miss fwd (latent ! index) (start_pos_item start_pos index) ?q) = Inr self'"
    unfolding retrieve_or_generate_step_def Let_def st bind_r.simps st'[symmetric]
    unfolding st' m bind_r.simps ph if_False .
  from m phase obtain mi where
    mi: "lookup_init self index ?key = Inr mi" and
    mm: "m = (if mi = None then lookup_recur self ?key else mi)"
    unfolding retrieve_matched_def lookup_init_query lookup_recur_query
    by (cases "lookup_init self index ?key") (auto split: if_splits)
  note li = lookup_init_Inr[OF mi]
  have mi': "mi = ?init_hit" by (rule li(2))
  have lr: "lookup_recur self ?key = ?recur_hit" by (simp add: lookup_recur_def)
  have "case ?init_hit of
          Some kv \<Rightarrow> hit_result kv ?q self'
        | None \<Rightarrow> (case ?recur_hit of
                     Some kv \<Rightarrow> hit_result kv ?q self'
                   | None \<Rightarrow> miss_result fwd (latent ! index) (start_pos_item start_pos index) ?q self')"
  proof (cases mi)
    case (Some kv)
    with mm have "m = Some kv" by simp
    with body have "append_hit kv (?q\<lparr>hit_count := hit_count ?q + 1\<rparr>) = Inr self'"
      by (simp only: option.case)
    from append_hit_result[OF this] Some show ?thesis
      unfolding mi'[symmetric] by simp
  next
    case None
    show ?thesis
    proof (cases "lookup_recur self ?key")
      case (Some kv)
      with None mm have "m = Some kv" by simp
      with body have "append_hit kv (?q\<lparr>hit_count := hit_count ?q + 1\<rparr>) = Inr self'"
        by (simp only: option.case)
      from append_hit_result[OF this] None Some show ?thesis
        unfolding mi'[symmetric] lr[symmetric] by simp
    next
      case N2: None
      with None mm have "m = None" by simp
      with body have
        "append_miss fwd (latent ! index) (start_pos_item start_pos index) ?q = Inr self'"
        by (simp only: option.case)
      from append_miss_result[OF this] None N2 show ?thesis
        unfolding mi'[symmetric] lr[symmetric] by simp
    qed
  qed
  then show ?thesis
    using idx li(1) li(3) new_KeysValues_empty unfolding Let_def by simp
qed

theorem lookup_order_witness:
  "(\<exists>self'. retrieve_or_generate_step example_xxh64 example_fwd [[1], [2, 3]] (Pos_array [0, 0]) 0
               example_model = Inr self' \<and>
      keys_values_wm_list self' = [Single_env] \<and> keys_values_wm_size_list self' = [1] \<and>
      hit_count self' = 0) \<and>
   (\<exists>self'. retrieve_or_generate_step example_xxh64 example_fwd [[1], [2, 3]] (Pos_array [0, 0]) 0
               example_hit_model = Inr self' \<and>
      keys_values_wm_list self' = [Wm_slot 0] \<and> keys_values_wm_size_list self' = [2] \<and>
      hit_count self' = 1 \<and>
      shared_pool_wm self' ! 0 = Some [\<lparr>k_cache = \<lparr>cache = [1, 1, 0, 0], size_c = 2\<rparr>,
                                        v_cache = \<lparr>cache = [2, 2, 0, 0], size_c = 2\<rparr>\<rparr>]) \<and>
   (\<exists>self'. retrieve_or_generate_step example_xxh64 example_fwd [[1], [2, 3]] (Pos_array [0, 0]) 0
               example_recur_model = Inr self' \<and>
      keys_values_wm_list self' = [Wm_slot 0] \<and> keys_values_wm_size_list self' = [3] \<and>
      hit_count self' = 1 \<and>
      shared_pool_wm self' ! 0 = Some [\<lparr>k_cache = \<lparr>cache = [3, 3, 3, 0], size_c = 3\<rparr>,
                                        v_cache = \<lparr>cache = [4, 4, 4, 0], size_c = 3\<rparr>\<rparr>]) \<and>
   (\<exists>self'. retrieve_or_generate_step example_xxh64 example_fwd [[1], [2, 3]] (Pos_array [0, 0]) 0
               example_both_model = Inr self' \<and>
      keys_values_wm_list self' = [Wm_slot 0] \<and> keys_values_wm_size_list self' = [2] \<and>
      hit_count self' = 1 \<and>
      shared_pool_wm self' ! 0 = Some [\<lparr>k_cache = \<lparr>cache = [1, 1, 0, 0], size_c = 2\<rparr>,
                                        v_cache = \<lparr>cache = [2, 2, 0, 0], size_c = 2\<rparr>\<rparr>])"
proof -
  let ?st = "(retrieve_or_generate_step example_xxh64 example_fwd [[1], [2, 3]] (Pos_array [0, 0]) 0
               :: int WorldModel \<Rightarrow> py_error + int WorldModel)"
  let ?key = "hash_state example_xxh64 ([[1], [2, 3]] ! 0)"
  let ?kvi = "[\<lparr>k_cache = \<lparr>cache = [1, 1, 0, 0 :: int], size_c = 2\<rparr>,
                 v_cache = \<lparr>cache = [2, 2, 0, 0], size_c = 2\<rparr>\<rparr>]"
  let ?kvr = "[\<lparr>k_cache = \<lparr>cache = [3, 3, 3, 0 :: int], size_c = 3\<rparr>,
                 v_cache = \<lparr>cache = [4, 4, 4, 0], size_c = 3\<rparr>\<rparr>]"
  have "\<not> isl (?st example_model)"
    by code_simp
  then obtain s1 where r1: "?st example_model = Inr s1"
    using not_isl_Inr by blast
  have p1: "\<not> reanalyze_phase example_model" by code_simp
  have i1: "(case (past_kv_cache_init_infer_envs example_model ! 0) ?key of
               None \<Rightarrow> None
             | Some cache_index \<Rightarrow> shared_pool_init_infer example_model ! 0 ! cache_index) = None"
    by code_simp
  have c1: "(case past_kv_cache_recurrent_infer example_model ?key of
               None \<Rightarrow> None
             | Some idx \<Rightarrow> if idx < length (shared_pool_recur_infer example_model)
                           then shared_pool_recur_infer example_model ! idx else None) = None"
    by code_simp
  have l1: "keys_values_wm_list example_model = []" "keys_values_wm_size_list example_model = []"
    "hit_count example_model = 0"
    by code_simp+
  from lookup_order[OF r1 p1] have
    "miss_result example_fwd ([[1], [2, 3]] ! 0) (start_pos_item (Pos_array [0, 0]) 0)
       (example_model\<lparr>total_query_count := total_query_count example_model + 1\<rparr>) s1"
    unfolding Let_def i1 c1 by simp
  then have
    m1: "keys_values_wm_list s1 = [Single_env] \<and> keys_values_wm_size_list s1 = [1] \<and> hit_count s1 = 0"
    unfolding miss_result_def by (simp add: l1)
  have "\<not> isl (?st example_hit_model)"
    by code_simp
  then obtain s2 where r2: "?st example_hit_model = Inr s2"
    using not_isl_Inr by blast
  have p2: "\<not> reanalyze_phase example_hit_model" by code_simp
  have i2: "(case (past_kv_cache_init_infer_envs example_hit_model ! 0) ?key of
               None \<Rightarrow> None
             | Some cache_index \<Rightarrow> shared_pool_init_infer example_hit_model ! 0 ! cache_index)
            = Some ?kvi"
    by code_simp
  have l2: "keys_values_wm_list example_hit_model = []"
    "keys_values_wm_size_list example_hit_model = []"
    "hit_count example_hit_model = 0" "shared_pool_index_wm example_hit_model = 0"
    by code_simp+
  have f2: "fits ?kvi (shared_pool_wm example_hit_model ! 0)" by code_simp
  from lookup_order[OF r2 p2] have
    "hit_result ?kvi
       (example_hit_model\<lparr>total_query_count := total_query_count example_hit_model + 1\<rparr>) s2"
    unfolding Let_def i2 by simp
  from hit_result_fits[OF this] f2 have
    m2: "keys_values_wm_list s2 = [Wm_slot 0] \<and> keys_values_wm_size_list s2 = [2] \<and> hit_count s2 = 1 \<and>
         shared_pool_wm s2 ! 0 = Some ?kvi"
    by (simp add: l2)
  have "\<not> isl (?st example_recur_model)"
    by code_simp
  then obtain s3 where r3: "?st example_recur_model = Inr s3"
    using not_isl_Inr by blast
  have p3: "\<not> reanalyze_phase example_recur_model" by code_simp
  have i3: "(case (past_kv_cache_init_infer_envs example_recur_model ! 0) ?key of
               None \<Rightarrow> None
             | Some cache_index \<Rightarrow> shared_pool_init_infer example_recur_model ! 0 ! cache_index)
            = None"
    by code_simp
  have c3: "(case past_kv_cache_recurrent_infer example_recur_model ?key of
               None \<Rightarrow> None
             | Some idx \<Rightarrow> if idx < length (shared_pool_recur_infer example_recur_model)
                           then shared_pool_recur_infer example_recur_model ! idx else None)
            = Some ?kvr"
    by code_simp
  have l3: "keys_values_wm_list example_recur_model = []"
    "keys_values_wm_size_list example_recur_model = []"
    "hit_count example_recur_model = 0" "shared_pool_index_wm example_recur_model = 0"
    by code_simp+
  have f3: "fits ?kvr (shared_pool_wm example_recur_model ! 0)" by code_simp
  from lookup_order[OF r3 p3] have
    "hit_result ?kvr
       (example_recur_model\<lparr>total_query_count := total_query_count example_recur_model + 1\<rparr>) s3"
    unfolding Let_def i3 c3 by simp
  from hit_result_fits[OF this] f3 have
    m3: "keys_values_wm_list s3 = [Wm_slot 0] \<and> keys_values_wm_size_list s3 = [3] \<and> hit_count s3 = 1 \<and>
         shared_pool_wm s3 ! 0 = Some ?kvr"
    by (simp add: l3)
  have "\<not> isl (?st example_both_model)"
    by code_simp
  then obtain s4 where r4: "?st example_both_model = Inr s4"
    using not_isl_Inr by blast
  have p4: "\<not> reanalyze_phase example_both_model" by code_simp
  have i4: "(case (past_kv_cache_init_infer_envs example_both_model ! 0) ?key of
               None \<Rightarrow> None
             | Some cache_index \<Rightarrow> shared_pool_init_infer example_both_model ! 0 ! cache_index)
            = Some ?kvi"
    by code_simp
  have l4: "keys_values_wm_list example_both_model = []"
    "keys_values_wm_size_list example_both_model = []"
    "hit_count example_both_model = 0" "shared_pool_index_wm example_both_model = 0"
    by code_simp+
  have f4: "fits ?kvi (shared_pool_wm example_both_model ! 0)" by code_simp
  from lookup_order[OF r4 p4] have
    "hit_result ?kvi
       (example_both_model\<lparr>total_query_count := total_query_count example_both_model + 1\<rparr>) s4"
    unfolding Let_def i4 by simp
  from hit_result_fits[OF this] f4 have
    m4: "keys_values_wm_list s4 = [Wm_slot 0] \<and> keys_values_wm_size_list s4 = [2] \<and> hit_count s4 = 1 \<and>
         shared_pool_wm s4 ! 0 = Some ?kvi"
    by (simp add: l4)
  from r1 m1 r2 m2 r3 m3 r4 m4 show ?thesis by blast
qed

subsection \<open>The indices under the operations\<close>

lemma index_inv_cong: "ring_state a = ring_state b \<Longrightarrow> index_inv a = index_inv b"
  by (simp add: ring_state_def index_inv_def)

lemma forward_wm_Inr:
  assumes "forward_wm fwd inp is_init sp depth s = Inr (out, s')"
  shows "\<exists>kv. s' = s\<lparr>keys_values_wm := kv\<rparr>"
proof -
  let ?c = "fwd s inp (Some (keys_values_wm s)) is_init sp depth"
  from assms obtain o1 kv where f: "?c = Inr (o1, kv)"
    unfolding forward_wm_def by (cases ?c) auto
  from assms f have "s' = s\<lparr>keys_values_wm := kv\<rparr>"
    unfolding forward_wm_def by simp
  then show ?thesis by blast
qed

lemma forward_wm_ring:
  assumes "forward_wm fwd inp is_init sp depth s = Inr (out, s')"
  shows "ring_state s' = ring_state s"
proof -
  from forward_wm_Inr[OF assms] obtain kv where "s' = s\<lparr>keys_values_wm := kv\<rparr>" by blast
  then show ?thesis by (simp add: ring_state_def)
qed

lemma forward_single_ring:
  assumes "forward_single fwd inp sp s = Inr (out, s')"
  shows "ring_state s' = ring_state s"
proof -
  from forward_single_Inr[OF assms] obtain kv' where
    "s' = s\<lparr>keys_values_wm_single_env := kv'\<rparr>" by blast
  then show ?thesis by (simp add: ring_state_def)
qed

lemma custom_copy_wm_ring:
  assumes "custom_copy_kv_cache_to_shared_wm kv s = Inr (r, s')"
  shows "ring_state s' = ring_state s"
proof -
  from custom_copy_wm_Inr[OF assms] obtain dst nxt where
    "s' = s\<lparr>shared_pool_wm := (shared_pool_wm s)[shared_pool_index_wm s := Some dst],
            shared_pool_index_wm := nxt\<rparr>" by blast
  then show ?thesis by (simp add: ring_state_def)
qed

lemma append_hit_ring:
  assumes "append_hit kv s = Inr s'"
  shows "ring_state s' = ring_state s"
proof -
  from assms obtain r s1 where c: "custom_copy_kv_cache_to_shared_wm kv s = Inr (r, s1)"
    unfolding append_hit_def by (cases "custom_copy_kv_cache_to_shared_wm kv s") auto
  from assms c obtain sz where sz: "size_kv kv = Inr sz"
    unfolding append_hit_def by (cases "size_kv kv") simp_all
  from assms c sz have "s' = s1\<lparr>keys_values_wm_list := keys_values_wm_list s1 @ [r],
               keys_values_wm_size_list := keys_values_wm_size_list s1 @ [sz]\<rparr>"
    unfolding append_hit_def by simp
  then have "ring_state s' = ring_state s1" by (simp add: ring_state_def)
  with custom_copy_wm_ring[OF c] show ?thesis by simp
qed

lemma fresh_single_env_ring: "ring_state (fresh_single_env s) = ring_state s"
  by (simp add: fresh_single_env_def ring_state_def)

lemma append_miss_ring:
  assumes "append_miss fwd st sp s = Inr s'"
  shows "ring_state s' = ring_state s"
proof -
  from assms obtain spa where spa: "sp = Inr spa"
    unfolding append_miss_def by (cases sp) simp_all
  let ?f = "forward_single fwd (Obs_embeddings [st]) (Pos_int spa) (fresh_single_env s)"
  from assms spa obtain out s1 where f: "?f = Inr (out, s1)"
    unfolding append_miss_def by (cases ?f) auto
  from assms spa f have "s' = s1\<lparr>keys_values_wm_list := keys_values_wm_list s1 @ [Single_env],
               keys_values_wm_size_list := keys_values_wm_size_list s1 @ [1]\<rparr>"
    unfolding append_miss_def by simp
  then have "ring_state s' = ring_state s1" by (simp add: ring_state_def)
  with forward_single_ring[OF f] fresh_single_env_ring[of s] show ?thesis by simp
qed

lemma retrieve_or_generate_step_ring:
  assumes "retrieve_or_generate_step xxh64 fwd latent sp index s = Inr s'"
  shows "ring_state s' = ring_state s"
proof -
  let ?q = "s\<lparr>total_query_count := total_query_count s + 1\<rparr>"
  have q: "ring_state ?q = ring_state s" by (simp add: ring_state_def)
  from assms obtain st where st: "nth_r latent index = Inr st"
    unfolding retrieve_or_generate_step_def Let_def by (cases "nth_r latent index") simp_all
  from assms st obtain m where m: "retrieve_matched ?q index (hash_state xxh64 st) = Inr m"
    unfolding retrieve_or_generate_step_def Let_def
    by (cases "retrieve_matched ?q index (hash_state xxh64 st)") simp_all
  from assms have body:
    "(case m of
        Some kv \<Rightarrow> append_hit kv (?q\<lparr>hit_count := hit_count ?q + 1\<rparr>)
      | None \<Rightarrow> append_miss fwd st
                  (if reanalyze_phase ?q then start_pos_reanalyze sp index
                   else start_pos_item sp index) ?q) = Inr s'"
    unfolding retrieve_or_generate_step_def Let_def st bind_r.simps m .
  show ?thesis
  proof (cases m)
    case None
    with body have "append_miss fwd st
                  (if reanalyze_phase ?q then start_pos_reanalyze sp index
                   else start_pos_item sp index) ?q = Inr s'"
      by (simp only: option.case)
    from append_miss_ring[OF this] q show ?thesis by simp
  next
    case (Some kv)
    with body have "append_hit kv (?q\<lparr>hit_count := hit_count ?q + 1\<rparr>) = Inr s'"
      by (simp only: option.case)
    from append_hit_ring[OF this] show ?thesis by (simp add: ring_state_def)
  qed
qed

lemma root_lookup_step_ring:
  assumes "root_lookup_step xxh64 fwd lobs sp i s = Inr s'"
  shows "ring_state s' = ring_state s"
proof -
  let ?q = "s\<lparr>root_total_query_cnt := root_total_query_cnt s + 1\<rparr>"
  have q: "ring_state ?q = ring_state s" by (simp add: ring_state_def)
  from assms obtain st where st: "nth_r lobs i = Inr st"
    unfolding root_lookup_step_def by (cases "nth_r lobs i") simp_all
  from assms st obtain m where m: "lookup_init s i (hash_state xxh64 st) = Inr m"
    unfolding root_lookup_step_def
    by (cases "lookup_init s i (hash_state xxh64 st)") simp_all
  from assms have body:
    "(case m of
        Some kv \<Rightarrow> append_hit kv (?q\<lparr>root_hit_cnt := root_hit_cnt ?q + 1\<rparr>)
      | None \<Rightarrow> append_miss fwd st (start_pos_item sp i) ?q) = Inr s'"
    unfolding root_lookup_step_def st bind_r.simps m Let_def .
  show ?thesis
  proof (cases m)
    case None
    with body have "append_miss fwd st (start_pos_item sp i) ?q = Inr s'"
      by (simp only: option.case)
    from append_miss_ring[OF this] q show ?thesis by simp
  next
    case (Some kv)
    with body have "append_hit kv (?q\<lparr>root_hit_cnt := root_hit_cnt ?q + 1\<rparr>) = Inr s'"
      by (simp only: option.case)
    from append_hit_ring[OF this] show ?thesis by (simp add: ring_state_def)
  qed
qed

lemma for_each_ring:
  assumes "for_each js f s = Inr s'"
    and "\<And>j a b. f j a = Inr b \<Longrightarrow> ring_state b = ring_state a"
  shows "ring_state s' = ring_state s"
  by (rule for_each_invariant[OF assms(1), where P = "\<lambda>x. ring_state x = ring_state s"])
     (use assms(2) in auto)

lemma trim_and_pad_layer_ring:
  assumes "trim_and_pad_layer M l a = Inr b"
  shows "ring_state b = ring_state a"
proof -
  from trim_and_pad_layer_Inr[OF assms] obtain x where
    "b = a\<lparr>keys_values_wm := (keys_values_wm a)[l := x]\<rparr>" by blast
  then show ?thesis by (simp add: ring_state_def)
qed

lemma trim_and_pad_ring:
  assumes "trim_and_pad_kv_cache flag s = Inr (sizes, s')"
  shows "ring_state s' = ring_state s"
proof -
  from assms obtain M where
    loop: "for_each [0..<num_layers s] (trim_and_pad_layer M) s = Inr s'"
    by (auto simp: trim_and_pad_kv_cache_def bind_r_Inr)
  show ?thesis by (rule for_each_ring[OF loop trim_and_pad_layer_ring])
qed

lemma layer_update_ring:
  "ring_state (a\<lparr>keys_values_wm := x, keys_values_wm_single_env := y\<rparr>) = ring_state a"
  "ring_state (a\<lparr>keys_values_wm_single_env := y\<rparr>) = ring_state a"
  by (simp_all add: ring_state_def)

lemma update_layer_root_ring:
  assumes "update_layer_root i l a = Inr b"
  shows "ring_state b = ring_state a"
proof -
  from update_layer_root_Inr[OF assms] obtain x where
    c: "if size_c (k_cache x) < context_length a - 1
        then b = a\<lparr>keys_values_wm_single_env := (keys_values_wm_single_env a)[l := x]\<rparr>
        else \<exists>k v l'. shrink_window a l (cache (k_cache x)) (cache (v_cache x)) = Inr (k, v, l') \<and>
               b = a\<lparr>keys_values_wm :=
                        (if \<not> rotary_emb a then write_back l i k v (keys_values_wm a)
                         else keys_values_wm a),
                      keys_values_wm_single_env := (keys_values_wm_single_env a)[l := l']\<rparr>"
    by blast
  show ?thesis
  proof (cases "size_c (k_cache x) < context_length a - 1")
    case True
    with c have "b = a\<lparr>keys_values_wm_single_env := (keys_values_wm_single_env a)[l := x]\<rparr>"
      by simp
    then show ?thesis by (simp add: ring_state_def)
  next
    case False
    with c obtain k v l' where
      "b = a\<lparr>keys_values_wm :=
                        (if \<not> rotary_emb a then write_back l i k v (keys_values_wm a)
                         else keys_values_wm a),
                      keys_values_wm_single_env := (keys_values_wm_single_env a)[l := l']\<rparr>"
      by auto
    then show ?thesis by (simp add: ring_state_def)
  qed
qed

lemma update_layer_internal_ring:
  assumes "update_layer_internal i t z l a = Inr b"
  shows "ring_state b = ring_state a"
proof -
  from update_layer_internal_Inr[OF assms] obtain x where
    c: "if context_length a - 1 \<le> z
        then \<exists>k v l'. shrink_window a l (cache (k_cache x)) (cache (v_cache x)) = Inr (k, v, l') \<and>
               b = a\<lparr>keys_values_wm :=
                        (if \<not> rotary_emb a \<and> t = 0 then write_back l i k v (keys_values_wm a)
                         else keys_values_wm a),
                      keys_values_wm_single_env := (keys_values_wm_single_env a)[l := l']\<rparr>
        else b = a\<lparr>keys_values_wm_single_env := (keys_values_wm_single_env a)[l := x]\<rparr>"
    by blast
  show ?thesis
  proof (cases "context_length a - 1 \<le> z")
    case False
    with c have "b = a\<lparr>keys_values_wm_single_env := (keys_values_wm_single_env a)[l := x]\<rparr>"
      by simp
    then show ?thesis by (simp add: ring_state_def)
  next
    case True
    with c obtain k v l' where
      "b = a\<lparr>keys_values_wm :=
                        (if \<not> rotary_emb a \<and> t = 0 then write_back l i k v (keys_values_wm a)
                         else keys_values_wm a),
                      keys_values_wm_single_env := (keys_values_wm_single_env a)[l := l']\<rparr>"
      by auto
    then show ?thesis by (simp add: ring_state_def)
  qed
qed

lemma update_layers_ring:
  assumes "update_layers is_init i s = Inr s'"
  shows "ring_state s' = ring_state s"
proof (cases is_init)
  case True
  with assms have "for_each [0..<num_layers s] (update_layer_root i) s = Inr s'"
    by (simp add: update_layers_def)
  then show ?thesis by (rule for_each_ring) (rule update_layer_root_ring)
next
  case False
  with assms obtain sizes where sz: "keys_values_wm_size_list_current s = Some sizes"
    unfolding update_layers_def by (cases "keys_values_wm_size_list_current s") simp_all
  from assms False sz obtain mx where mx: "max_r sizes = Inr mx"
    unfolding update_layers_def by (cases "max_r sizes") simp_all
  from assms False sz mx obtain z where z: "nth_r sizes i = Inr z"
    unfolding update_layers_def by (cases "nth_r sizes i") simp_all
  from assms False sz mx z have
    "for_each [0..<num_layers s] (update_layer_internal i (mx - z) z) s = Inr s'"
    unfolding update_layers_def by simp
  then show ?thesis by (rule for_each_ring) (rule update_layer_internal_ring)
qed

lemma init_index_changes_refl: "init_index_changes xxh64 latent a a"
  by (simp add: init_index_changes_def)

lemma init_index_changes_trans:
  "init_index_changes xxh64 latent a b \<Longrightarrow> init_index_changes xxh64 latent b c \<Longrightarrow>
     init_index_changes xxh64 latent a c"
  unfolding init_index_changes_def by metis

lemma ring_init_index_changes:
  "ring_state b = ring_state a \<Longrightarrow> init_index_changes xxh64 latent a b"
  by (simp add: ring_state_def init_index_changes_def)

lemma custom_copy_init_Inr:
  assumes "custom_copy_kv_cache_to_shared_init_envs src_kv i s = Inr (ci, s')"
  shows "\<exists>dst. i < length (shared_pool_init_infer s) \<and> i < length (shared_pool_index_init_envs s) \<and>
           ci = shared_pool_index_init_envs s ! i \<and>
           ci < length (shared_pool_init_infer s ! i) \<and>
           shared_pool_size_init s \<noteq> 0 \<and>
           s' = s\<lparr>shared_pool_init_infer :=
                    (shared_pool_init_infer s)[i := (shared_pool_init_infer s ! i)[ci := Some dst]],
                  shared_pool_index_init_envs :=
                    (shared_pool_index_init_envs s)[i := (ci + 1) mod shared_pool_size_init s]\<rparr>"
proof -
  from assms obtain pool where pool: "nth_r (shared_pool_init_infer s) i = Inr pool"
    unfolding custom_copy_kv_cache_to_shared_init_envs_def
    by (cases "nth_r (shared_pool_init_infer s) i") simp_all
  from assms pool obtain c where c: "nth_r (shared_pool_index_init_envs s) i = Inr c"
    unfolding custom_copy_kv_cache_to_shared_init_envs_def
    by (cases "nth_r (shared_pool_index_init_envs s) i") simp_all
  from assms pool c obtain slot where slot: "nth_r pool c = Inr slot"
    unfolding custom_copy_kv_cache_to_shared_init_envs_def
    by (cases "nth_r pool c") simp_all
  from assms pool c slot obtain dst where dst: "fill_slot src_kv slot = Inr dst"
    unfolding custom_copy_kv_cache_to_shared_init_envs_def
    by (cases "fill_slot src_kv slot") simp_all
  from assms pool c slot dst obtain nxt where
    n: "mod_r (c + 1) (shared_pool_size_init s) = Inr nxt"
    unfolding custom_copy_kv_cache_to_shared_init_envs_def
    by (cases "mod_r (c + 1) (shared_pool_size_init s)") simp_all
  from assms pool c slot dst n have
    "ci = c"
    "s' = s\<lparr>shared_pool_init_infer := (shared_pool_init_infer s)[i := pool[c := Some dst]],
            shared_pool_index_init_envs := (shared_pool_index_init_envs s)[i := nxt]\<rparr>"
    unfolding custom_copy_kv_cache_to_shared_init_envs_def by auto
  with pool c slot n show ?thesis
    by (auto simp: nth_r_Inr mod_r_Inr)
qed

lemma custom_copy_recur_Inr:
  assumes "custom_copy_kv_cache_to_shared_recur src_kv s = Inr (ci, s')"
  shows "\<exists>dst. ci = shared_pool_index s \<and> ci < length (shared_pool_recur_infer s) \<and>
           shared_pool_size s \<noteq> 0 \<and>
           s' = s\<lparr>shared_pool_recur_infer := (shared_pool_recur_infer s)[ci := Some dst],
                  shared_pool_index := (ci + 1) mod shared_pool_size s\<rparr>"
proof -
  from assms obtain slot where
    slot: "nth_r (shared_pool_recur_infer s) (shared_pool_index s) = Inr slot"
    unfolding custom_copy_kv_cache_to_shared_recur_def
    by (cases "nth_r (shared_pool_recur_infer s) (shared_pool_index s)") simp_all
  from assms slot obtain dst where dst: "fill_slot src_kv slot = Inr dst"
    unfolding custom_copy_kv_cache_to_shared_recur_def
    by (cases "fill_slot src_kv slot") simp_all
  from assms slot dst obtain nxt where
    n: "mod_r (shared_pool_index s + 1) (shared_pool_size s) = Inr nxt"
    unfolding custom_copy_kv_cache_to_shared_recur_def
    by (cases "mod_r (shared_pool_index s + 1) (shared_pool_size s)") simp_all
  from assms slot dst n have
    "ci = shared_pool_index s"
    "s' = s\<lparr>shared_pool_recur_infer := (shared_pool_recur_infer s)[shared_pool_index s := Some dst],
            shared_pool_index := nxt\<rparr>"
    unfolding custom_copy_kv_cache_to_shared_recur_def by auto
  with slot n show ?thesis
    by (auto simp: nth_r_Inr mod_r_Inr)
qed

lemma store_context_init_Inr:
  assumes "store_context True i key s = Inr s'"
  shows "\<exists>dst. i < length (shared_pool_init_infer s) \<and> i < length (shared_pool_index_init_envs s) \<and>
           i < length (past_kv_cache_init_infer_envs s) \<and>
           shared_pool_index_init_envs s ! i < length (shared_pool_init_infer s ! i) \<and>
           shared_pool_size_init s \<noteq> 0 \<and>
           s' = s\<lparr>shared_pool_init_infer :=
                    (shared_pool_init_infer s)
                      [i := (shared_pool_init_infer s ! i)[shared_pool_index_init_envs s ! i := Some dst]],
                  shared_pool_index_init_envs :=
                    (shared_pool_index_init_envs s)
                      [i := (shared_pool_index_init_envs s ! i + 1) mod shared_pool_size_init s],
                  past_kv_cache_init_infer_envs :=
                    (past_kv_cache_init_infer_envs s)
                      [i := (past_kv_cache_init_infer_envs s ! i)(key \<mapsto> shared_pool_index_init_envs s ! i)]\<rparr>"
proof -
  let ?c = "custom_copy_kv_cache_to_shared_init_envs (keys_values_wm_single_env s) i s"
  from assms obtain ci s1 where c: "?c = Inr (ci, s1)"
    unfolding store_context_def by (cases ?c) auto
  from custom_copy_init_Inr[OF c] obtain dst where
    f: "i < length (shared_pool_init_infer s)" "i < length (shared_pool_index_init_envs s)"
       "ci = shared_pool_index_init_envs s ! i" "ci < length (shared_pool_init_infer s ! i)"
       "shared_pool_size_init s \<noteq> 0" and
    s1: "s1 = s\<lparr>shared_pool_init_infer :=
                    (shared_pool_init_infer s)[i := (shared_pool_init_infer s ! i)[ci := Some dst]],
                  shared_pool_index_init_envs :=
                    (shared_pool_index_init_envs s)[i := (ci + 1) mod shared_pool_size_init s]\<rparr>"
    by blast
  have p1: "past_kv_cache_init_infer_envs s1 = past_kv_cache_init_infer_envs s"
    by (simp add: s1)
  from assms c obtain d where d: "nth_r (past_kv_cache_init_infer_envs s) i = Inr d"
    unfolding store_context_def p1[symmetric]
    by (cases "nth_r (past_kv_cache_init_infer_envs s1) i") simp_all
  from assms c d have
    "s' = s1\<lparr>past_kv_cache_init_infer_envs := (past_kv_cache_init_infer_envs s1)[i := d(key \<mapsto> ci)]\<rparr>"
    unfolding store_context_def p1[symmetric] by simp
  with d f s1 show ?thesis
    by (auto simp: nth_r_Inr)
qed

lemma store_context_recur_Inr:
  assumes "store_context False i key s = Inr s'"
  shows "\<exists>dst. shared_pool_index s < length (shared_pool_recur_infer s) \<and>
           shared_pool_size s \<noteq> 0 \<and>
           s' = s\<lparr>shared_pool_recur_infer := (shared_pool_recur_infer s)[shared_pool_index s := Some dst],
                  shared_pool_index := (shared_pool_index s + 1) mod shared_pool_size s,
                  past_kv_cache_recurrent_infer :=
                    (past_kv_cache_recurrent_infer s)(key \<mapsto> shared_pool_index s)\<rparr>"
proof -
  let ?c = "custom_copy_kv_cache_to_shared_recur (keys_values_wm_single_env s) s"
  from assms obtain ci s1 where c: "?c = Inr (ci, s1)"
    unfolding store_context_def by (cases ?c) auto
  from custom_copy_recur_Inr[OF c] obtain dst where
    f: "ci = shared_pool_index s" "ci < length (shared_pool_recur_infer s)" "shared_pool_size s \<noteq> 0" and
    s1: "s1 = s\<lparr>shared_pool_recur_infer := (shared_pool_recur_infer s)[ci := Some dst],
                  shared_pool_index := (ci + 1) mod shared_pool_size s\<rparr>"
    by blast
  from assms c have
    "s' = s1\<lparr>past_kv_cache_recurrent_infer := (past_kv_cache_recurrent_infer s1)(key \<mapsto> ci)\<rparr>"
    unfolding store_context_def by simp
  with f s1 show ?thesis by auto
qed

lemma store_context_inv:
  assumes run: "store_context is_init i key s = Inr s'" and inv: "index_inv s"
  shows "index_inv s'"
proof (cases is_init)
  case True
  with run have r: "store_context True i key s = Inr s'" by simp
  from store_context_init_Inr[OF r] obtain dst where
    f: "i < length (shared_pool_init_infer s)" "i < length (shared_pool_index_init_envs s)"
       "i < length (past_kv_cache_init_infer_envs s)"
       "shared_pool_index_init_envs s ! i < length (shared_pool_init_infer s ! i)"
       "shared_pool_size_init s \<noteq> 0" and
    s': "s' = s\<lparr>shared_pool_init_infer :=
                    (shared_pool_init_infer s)
                      [i := (shared_pool_init_infer s ! i)[shared_pool_index_init_envs s ! i := Some dst]],
                  shared_pool_index_init_envs :=
                    (shared_pool_index_init_envs s)
                      [i := (shared_pool_index_init_envs s ! i + 1) mod shared_pool_size_init s],
                  past_kv_cache_init_infer_envs :=
                    (past_kv_cache_init_infer_envs s)
                      [i := (past_kv_cache_init_infer_envs s ! i)(key \<mapsto> shared_pool_index_init_envs s ! i)]\<rparr>"
    by blast
  have cur: "shared_pool_index_init_envs s ! i < shared_pool_size_init s"
  proof -
    from inv have "\<forall>e. e < length (shared_pool_index_init_envs s) \<longrightarrow>
        shared_pool_size_init s = 0 \<or> shared_pool_index_init_envs s ! e < shared_pool_size_init s"
      unfolding index_inv_def by simp
    with f(2) have "shared_pool_size_init s = 0 \<or> shared_pool_index_init_envs s ! i < shared_pool_size_init s"
      by blast
    with f(5) show ?thesis by simp
  qed
  have a1: "\<forall>e h j. e < length (past_kv_cache_init_infer_envs s') \<longrightarrow>
        (past_kv_cache_init_infer_envs s' ! e) h = Some j \<longrightarrow> j < shared_pool_size_init s'"
  proof (intro allI impI)
    fix e h j
    assume e: "e < length (past_kv_cache_init_infer_envs s')"
      and h: "(past_kv_cache_init_infer_envs s' ! e) h = Some j"
    have e': "e < length (past_kv_cache_init_infer_envs s)" using e by (simp add: s')
    show "j < shared_pool_size_init s'"
    proof (cases "e = i \<and> h = key")
      case True
      with h e' have "j = shared_pool_index_init_envs s ! i" by (simp add: s')
      with cur show ?thesis by (simp add: s')
    next
      case False
      with h e' have "(past_kv_cache_init_infer_envs s ! e) h = Some j"
        by (cases "e = i") (auto simp: s')
      with inv e' have "j < shared_pool_size_init s" unfolding index_inv_def by blast
      then show ?thesis by (simp add: s')
    qed
  qed
  have a2: "\<forall>h j. past_kv_cache_recurrent_infer s' h = Some j \<longrightarrow> j < shared_pool_size s'"
    using inv unfolding index_inv_def by (simp add: s')
  have a3: "\<forall>e. e < length (shared_pool_index_init_envs s') \<longrightarrow>
        shared_pool_size_init s' = 0 \<or> shared_pool_index_init_envs s' ! e < shared_pool_size_init s'"
  proof (intro allI impI)
    fix e assume e: "e < length (shared_pool_index_init_envs s')"
    then have e': "e < length (shared_pool_index_init_envs s)" by (simp add: s')
    show "shared_pool_size_init s' = 0 \<or> shared_pool_index_init_envs s' ! e < shared_pool_size_init s'"
    proof (cases "e = i")
      case True
      then show ?thesis using f(5) e' by (simp add: s')
    next
      case False
      then show ?thesis using inv e' unfolding index_inv_def by (simp add: s')
    qed
  qed
  have a4: "shared_pool_size s' = 0 \<or> shared_pool_index s' < shared_pool_size s'"
    "length (shared_pool_recur_infer s') = shared_pool_size s'"
    using inv unfolding index_inv_def by (simp_all add: s')
  have a7: "length (shared_pool_init_infer s') = length (past_kv_cache_init_infer_envs s')"
    using inv unfolding index_inv_def by (simp add: s')
  have a6: "\<forall>e. e < length (shared_pool_init_infer s') \<longrightarrow>
        length (shared_pool_init_infer s' ! e) = shared_pool_size_init s'"
  proof (intro allI impI)
    fix e assume "e < length (shared_pool_init_infer s')"
    then have e': "e < length (shared_pool_init_infer s)" by (simp add: s')
    then have "length (shared_pool_init_infer s ! e) = shared_pool_size_init s"
      using inv unfolding index_inv_def by blast
    then show "length (shared_pool_init_infer s' ! e) = shared_pool_size_init s'"
      using e' by (cases "e = i") (simp_all add: s')
  qed
  show ?thesis unfolding index_inv_def using a1 a2 a3 a4 a6 a7 by blast
next
  case False
  with run have r: "store_context False i key s = Inr s'" by simp
  from store_context_recur_Inr[OF r] obtain dst where
    f: "shared_pool_index s < length (shared_pool_recur_infer s)" "shared_pool_size s \<noteq> 0" and
    s': "s' = s\<lparr>shared_pool_recur_infer := (shared_pool_recur_infer s)[shared_pool_index s := Some dst],
                  shared_pool_index := (shared_pool_index s + 1) mod shared_pool_size s,
                  past_kv_cache_recurrent_infer :=
                    (past_kv_cache_recurrent_infer s)(key \<mapsto> shared_pool_index s)\<rparr>"
    by blast
  have cur: "shared_pool_index s < shared_pool_size s"
    using inv f(2) unfolding index_inv_def by blast
  have a1: "\<forall>e h j. e < length (past_kv_cache_init_infer_envs s') \<longrightarrow>
        (past_kv_cache_init_infer_envs s' ! e) h = Some j \<longrightarrow> j < shared_pool_size_init s'"
    using inv unfolding index_inv_def by (simp add: s')
  have a2: "\<forall>h j. past_kv_cache_recurrent_infer s' h = Some j \<longrightarrow> j < shared_pool_size s'"
  proof (intro allI impI)
    fix h j assume h: "past_kv_cache_recurrent_infer s' h = Some j"
    show "j < shared_pool_size s'"
    proof (cases "h = key")
      case True
      with h have "j = shared_pool_index s" by (simp add: s')
      with cur show ?thesis by (simp add: s')
    next
      case False
      with h have "past_kv_cache_recurrent_infer s h = Some j" by (simp add: s')
      with inv have "j < shared_pool_size s" unfolding index_inv_def by blast
      then show ?thesis by (simp add: s')
    qed
  qed
  have a3: "\<forall>e. e < length (shared_pool_index_init_envs s') \<longrightarrow>
        shared_pool_size_init s' = 0 \<or> shared_pool_index_init_envs s' ! e < shared_pool_size_init s'"
    using inv unfolding index_inv_def by (simp add: s')
  have a4: "shared_pool_size s' = 0 \<or> shared_pool_index s' < shared_pool_size s'"
    using f(2) by (simp add: s')
  have a5: "length (shared_pool_recur_infer s') = shared_pool_size s'"
    using inv unfolding index_inv_def by (simp add: s')
  have a6: "\<forall>e. e < length (shared_pool_init_infer s') \<longrightarrow>
        length (shared_pool_init_infer s' ! e) = shared_pool_size_init s'"
    using inv unfolding index_inv_def by (simp add: s')
  have a7: "length (shared_pool_init_infer s') = length (past_kv_cache_init_infer_envs s')"
    using inv unfolding index_inv_def by (simp add: s')
  show ?thesis unfolding index_inv_def using a1 a2 a3 a4 a5 a6 a7 by blast
qed

lemma store_context_changes:
  assumes run: "store_context is_init i (hash_state xxh64 (latent ! i)) s = Inr s'"
    and i: "i < length latent"
  shows "init_index_changes xxh64 latent s s'"
proof (cases is_init)
  case True
  with run have r: "store_context True i (hash_state xxh64 (latent ! i)) s = Inr s'" by simp
  from store_context_init_Inr[OF r] obtain x y z where
    l: "i < length (past_kv_cache_init_infer_envs s)" and
    s': "s' = s\<lparr>shared_pool_init_infer := x, shared_pool_index_init_envs := y,
                  past_kv_cache_init_infer_envs :=
                    (past_kv_cache_init_infer_envs s)
                      [i := (past_kv_cache_init_infer_envs s ! i)(hash_state xxh64 (latent ! i) \<mapsto> z)]\<rparr>"
    by blast
  have len: "length (past_kv_cache_init_infer_envs s') = length (past_kv_cache_init_infer_envs s)"
    by (simp add: s')
  have ch: "e < length latent \<and> h = hash_state xxh64 (latent ! e)"
    if e: "e < length (past_kv_cache_init_infer_envs s)"
      and d: "(past_kv_cache_init_infer_envs s' ! e) h \<noteq> (past_kv_cache_init_infer_envs s ! e) h"
    for e h
  proof (cases "e = i")
    case True
    with d l have "h = hash_state xxh64 (latent ! i)"
      by (cases "h = hash_state xxh64 (latent ! i)") (simp_all add: s')
    with True i show ?thesis by simp
  next
    case False
    with d e have False by (simp add: s')
    then show ?thesis ..
  qed
  show ?thesis
    unfolding init_index_changes_def using len ch by blast
next
  case False
  with run have r: "store_context False i (hash_state xxh64 (latent ! i)) s = Inr s'" by simp
  from store_context_recur_Inr[OF r] obtain x y z where
    s': "s' = s\<lparr>shared_pool_recur_infer := x, shared_pool_index := y,
                  past_kv_cache_recurrent_infer := z\<rparr>"
    by blast
  show ?thesis
    unfolding init_index_changes_def by (simp add: s')
qed

lemma keeps_inv_refl: "keeps_inv a a"
  by (simp add: keeps_inv_def)

lemma keeps_inv_trans: "keeps_inv a b \<Longrightarrow> keeps_inv b c \<Longrightarrow> keeps_inv a c"
  by (simp add: keeps_inv_def)

lemma ring_keeps_inv: "ring_state b = ring_state a \<Longrightarrow> keeps_inv a b"
  using index_inv_cong[of b a] by (simp add: keeps_inv_def ring_state_def)

lemma store_context_keeps:
  assumes run: "store_context is_init i key s = Inr s'"
  shows "keeps_inv s s'"
proof -
  have sizes: "shared_pool_size s' = shared_pool_size s \<and>
               shared_pool_size_init s' = shared_pool_size_init s \<and>
               length (past_kv_cache_init_infer_envs s') = length (past_kv_cache_init_infer_envs s)"
  proof (cases is_init)
    case True
    with run have r: "store_context True i key s = Inr s'" by simp
    from store_context_init_Inr[OF r] obtain x y z where
      "s' = s\<lparr>shared_pool_init_infer := x, shared_pool_index_init_envs := y,
               past_kv_cache_init_infer_envs := (past_kv_cache_init_infer_envs s)[i := z]\<rparr>"
      by blast
    then show ?thesis by simp
  next
    case False
    with run have r: "store_context False i key s = Inr s'" by simp
    from store_context_recur_Inr[OF r] obtain x y z where
      "s' = s\<lparr>shared_pool_recur_infer := x, shared_pool_index := y,
               past_kv_cache_recurrent_infer := z\<rparr>"
      by blast
    then show ?thesis by simp
  qed
  with store_context_inv[OF run] show ?thesis by (simp add: keeps_inv_def)
qed

lemma update_cache_context_env_props:
  assumes run: "update_cache_context_env xxh64 latent is_init i s = Inr s'"
  shows "keeps_inv s s'" and "init_index_changes xxh64 latent s s'"
proof -
  from run obtain row where row: "nth_r latent i = Inr row"
    unfolding update_cache_context_env_def by (cases "nth_r latent i") simp_all
  then have i: "i < length latent" and rw: "row = latent ! i" by (simp_all add: nth_r_Inr)
  from run row obtain s1 where u: "update_layers is_init i s = Inr s1"
    unfolding update_cache_context_env_def by (cases "update_layers is_init i s") simp_all
  from run row u have st: "store_context is_init i (hash_state xxh64 (latent ! i)) s1 = Inr s'"
    unfolding update_cache_context_env_def rw by simp
  note r1 = update_layers_ring[OF u]
  show "keeps_inv s s'"
    using keeps_inv_trans[OF ring_keeps_inv[OF r1] store_context_keeps[OF st]] .
  show "init_index_changes xxh64 latent s s'"
    using init_index_changes_trans[OF ring_init_index_changes[OF r1] store_context_changes[OF st i]] .
qed

lemma update_cache_context_props:
  fixes s :: "'a::{zero,plus} WorldModel"
  assumes run: "update_cache_context xxh64 latent is_init s = Inr s'"
  shows "keeps_inv s s'" and "init_index_changes xxh64 latent s s'"
proof -
  have "keeps_inv s s' \<and> init_index_changes xxh64 latent s s'"
  proof (cases "context_length s \<le> 2")
    case True
    with run have "s' = s" by (simp add: update_cache_context_def)
    then show ?thesis by (simp add: init_index_changes_refl keeps_inv_refl)
  next
    case False
    with run have loop:
      "for_each [0..<length latent] (update_cache_context_env xxh64 latent is_init) s = Inr s'"
      by (simp add: update_cache_context_def)
    show ?thesis
    proof (rule for_each_invariant[OF loop,
          where P = "\<lambda>x. keeps_inv s x \<and> init_index_changes xxh64 latent s x"])
      show "keeps_inv s s \<and> init_index_changes xxh64 latent s s"
        by (simp add: init_index_changes_refl keeps_inv_refl)
    next
      fix j and a b :: "'a WorldModel"
      assume p: "keeps_inv s a \<and> init_index_changes xxh64 latent s a"
        and st: "update_cache_context_env xxh64 latent is_init j a = Inr b"
      from update_cache_context_env_props[OF st] p
      show "keeps_inv s b \<and> init_index_changes xxh64 latent s b"
        using init_index_changes_trans keeps_inv_trans by blast
    qed
  qed
  then show "keeps_inv s s'" and "init_index_changes xxh64 latent s s'"
    by simp_all
qed

lemma continue_episode_props:
  fixes s :: "'a::{zero,plus} WorldModel"
  assumes run: "continue_episode xxh64 fwd lobs acts current sp s = Inr (out, s')"
  shows "keeps_inv s s'" and "init_index_changes xxh64 current s s'"
proof -
  let ?s0 = "s\<lparr>keys_values_wm_list := [], keys_values_wm_size_list := []\<rparr>"
  let ?n = "length current"
  let ?loop = "for_each [0..<?n] (root_lookup_step xxh64 fwd lobs sp) ?s0"
  from run obtain s1 where l: "?loop = Inr s1"
    unfolding continue_episode_def Let_def by (cases ?loop) simp_all
  from run l obtain sizes s2 where t: "trim_and_pad_kv_cache True s1 = Inr (sizes, s2)"
    unfolding continue_episode_def Let_def by (cases "trim_and_pad_kv_cache True s1") auto
  from run l t obtain sp' where p: "start_pos_take sp ?n = Inr sp'"
    unfolding continue_episode_def Let_def by (cases "start_pos_take sp ?n") simp_all
  let ?f1 = "forward_wm fwd (Act_tokens (take ?n acts)) True sp' None
               (s2\<lparr>keys_values_wm_size_list_current := Some sizes\<rparr>)"
  from run l t p obtain o3 s3 where f1: "?f1 = Inr (o3, s3)"
    unfolding continue_episode_def Let_def by (cases ?f1) auto
  let ?f2 = "forward_wm fwd (Obs_embeddings current) True sp' None s3"
  from run l t p f1 obtain o4 s4 where f2: "?f2 = Inr (o4, s4)"
    unfolding continue_episode_def Let_def by (cases ?f2) auto
  from run l t p f1 f2 have u: "update_cache_context xxh64 current True s4 = Inr s'"
    unfolding continue_episode_def Let_def
    by (cases "update_cache_context xxh64 current True s4") simp_all
  have r0: "ring_state ?s0 = ring_state s" by (simp add: ring_state_def)
  have r1: "ring_state s1 = ring_state ?s0"
    using for_each_ring[OF l] root_lookup_step_ring by blast
  have r2: "ring_state s2 = ring_state s1" by (rule trim_and_pad_ring[OF t])
  have r2': "ring_state (s2\<lparr>keys_values_wm_size_list_current := Some sizes\<rparr>) = ring_state s2"
    by (simp add: ring_state_def)
  have r3: "ring_state s3 = ring_state (s2\<lparr>keys_values_wm_size_list_current := Some sizes\<rparr>)"
    by (rule forward_wm_ring[OF f1])
  have r4: "ring_state s4 = ring_state s3" by (rule forward_wm_ring[OF f2])
  have r: "ring_state s4 = ring_state s"
    using r0 r1 r2 r2' r3 r4 by simp
  show "keeps_inv s s'"
    using keeps_inv_trans[OF ring_keeps_inv[OF r] update_cache_context_props(1)[OF u]] .
  show "init_index_changes xxh64 current s s'"
    using init_index_changes_trans[OF ring_init_index_changes[OF r] update_cache_context_props(2)[OF u]] .
qed

lemma wm_forward_props:
  fixes s :: "'a::{zero,plus} WorldModel"
  assumes run: "wm_forward_for_initial_infererence xxh64 fwd lobs batch_action cur sp s = Inr (out, s')"
  shows "keeps_inv s s'"
    and "init_index_changes xxh64 (case cur of Some c \<Rightarrow> c | None \<Rightarrow> []) s s'"
proof -
  have "keeps_inv s s' \<and> init_index_changes xxh64 (case cur of Some c \<Rightarrow> c | None \<Rightarrow> []) s s'"
  proof (cases cur)
    case None
    show ?thesis
    proof (cases batch_action)
      case N: None
      with None run show ?thesis by (simp add: wm_forward_for_initial_infererence_def)
    next
      case (Some acts)
      let ?f = "fwd s (Obs_embeddings_and_act_tokens lobs acts) None True sp None"
      from run None Some obtain r where "?f = Inr r"
        unfolding wm_forward_for_initial_infererence_def by (cases ?f) simp_all
      with run None Some have "s' = s"
        unfolding wm_forward_for_initial_infererence_def by (cases r) simp
      then show ?thesis by (simp add: keeps_inv_refl init_index_changes_refl)
    qed
  next
    case (Some current)
    from run Some have le: "length lobs \<le> env_num s"
      unfolding wm_forward_for_initial_infererence_def by (cases "length lobs \<le> env_num s") simp_all
    from run Some le obtain flag where fl: "first_step_flag s batch_action = Inr flag"
      unfolding wm_forward_for_initial_infererence_def
      by (cases "first_step_flag s batch_action") simp_all
    show ?thesis
    proof (cases flag)
      case True
      let ?s0 = "s\<lparr>keys_values_wm :=
                      generate_empty_keys_values (num_layers s) (length current) (context_length s)\<rparr>"
      let ?f = "forward_wm fwd (Obs_embeddings current) True sp None ?s0"
      from run Some le fl True obtain o1 s1 where f: "?f = Inr (o1, s1)"
        unfolding wm_forward_for_initial_infererence_def by (cases ?f) auto
      from run Some le fl True f have u: "update_cache_context xxh64 current True s1 = Inr s'"
        unfolding wm_forward_for_initial_infererence_def
        by (cases "update_cache_context xxh64 current True s1") simp_all
      have r0: "ring_state ?s0 = ring_state s" by (simp add: ring_state_def)
      have r: "ring_state s1 = ring_state s"
        using forward_wm_ring[OF f] r0 by simp
      show ?thesis
        using keeps_inv_trans[OF ring_keeps_inv[OF r] update_cache_context_props(1)[OF u]]
          init_index_changes_trans[OF ring_init_index_changes[OF r] update_cache_context_props(2)[OF u]]
          Some by simp
    next
      case False
      from run Some le fl False have
        "continue_episode xxh64 fwd lobs (case batch_action of Some acts \<Rightarrow> acts | None \<Rightarrow> [])
           current sp s = Inr (out, s')"
        unfolding wm_forward_for_initial_infererence_def by simp
      from continue_episode_props[OF this] Some show ?thesis by simp
    qed
  qed
  then show "keeps_inv s s'"
    and "init_index_changes xxh64 (case cur of Some c \<Rightarrow> c | None \<Rightarrow> []) s s'"
    by simp_all
qed

lemma reset_props:
  fixes s :: "'a::{zero,plus} WorldModel"
  assumes run: "reset_for_initial_inference xxh64 fwd encode d sp s = Inr (res, s')"
  shows "keeps_inv s s'"
    and "init_index_changes xxh64 (case current_obs d of Some b \<Rightarrow> encode b | None \<Rightarrow> []) s s'"
proof -
  have "keeps_inv s s' \<and>
        init_index_changes xxh64 (case current_obs d of Some b \<Rightarrow> encode b | None \<Rightarrow> []) s s'"
  proof (cases "current_obs d")
    case None
    let ?s0 = "s\<lparr>latent_state := Some (encode (obs d))\<rparr>"
    let ?w = "wm_forward_for_initial_infererence xxh64 fwd (encode (obs d)) (action d) None sp ?s0"
    from run None obtain o1 s1 where w: "?w = Inr (o1, s1)"
      unfolding reset_for_initial_inference_def Let_def by (cases ?w) auto
    from run None w have e: "s' = s1"
      unfolding reset_for_initial_inference_def Let_def by simp
    have r0: "ring_state ?s0 = ring_state s" by (simp add: ring_state_def)
    from wm_forward_props[OF w] have
      "keeps_inv ?s0 s1" "init_index_changes xxh64 [] ?s0 s1" by simp_all
    with keeps_inv_trans[OF ring_keeps_inv[OF r0]]
      init_index_changes_trans[OF ring_init_index_changes[OF r0]]
    show ?thesis unfolding e None by simp
  next
    case (Some b)
    let ?s0 = "s\<lparr>latent_state := Some (encode b)\<rparr>"
    let ?w = "wm_forward_for_initial_infererence xxh64 fwd (encode (obs d)) (action d)
                (Some (encode b)) sp ?s0"
    from run Some obtain o1 s1 where w: "?w = Inr (o1, s1)"
      unfolding reset_for_initial_inference_def Let_def by (cases ?w) auto
    from run Some w have e: "s' = s1"
      unfolding reset_for_initial_inference_def Let_def by simp
    have r0: "ring_state ?s0 = ring_state s" by (simp add: ring_state_def)
    from wm_forward_props[OF w] have
      "keeps_inv ?s0 s1" "init_index_changes xxh64 (encode b) ?s0 s1" by simp_all
    with keeps_inv_trans[OF ring_keeps_inv[OF r0]]
      init_index_changes_trans[OF ring_init_index_changes[OF r0]]
    show ?thesis unfolding e Some by simp
  qed
  then show "keeps_inv s s'"
    and "init_index_changes xxh64 (case current_obs d of Some b \<Rightarrow> encode b | None \<Rightarrow> []) s s'"
    by simp_all
qed

lemma empty_recurrent_keeps:
  "keeps_inv s (s\<lparr>past_kv_cache_recurrent_infer := Map.empty\<rparr>)"
  by (simp add: keeps_inv_def index_inv_def)

lemma forward_initial_inference_props:
  fixes s :: "'a::{zero,plus} WorldModel"
  assumes run: "forward_initial_inference xxh64 fwd encode d sp s = Inr (res, s')"
  shows "keeps_inv s s'"
    and "init_index_changes xxh64 (case current_obs d of Some b \<Rightarrow> encode b | None \<Rightarrow> []) s s'"
    and "past_kv_cache_recurrent_infer s' = Map.empty"
proof -
  let ?r = "reset_for_initial_inference xxh64 fwd encode d sp s"
  from run obtain r1 s1 where r: "?r = Inr (r1, s1)"
    unfolding forward_initial_inference_def by (cases ?r) auto
  from run r have e: "s' = s1\<lparr>past_kv_cache_recurrent_infer := Map.empty\<rparr>"
    unfolding forward_initial_inference_def by simp
  show "keeps_inv s s'"
    unfolding e using keeps_inv_trans[OF reset_props(1)[OF r] empty_recurrent_keeps] .
  have "init_index_changes xxh64 (case current_obs d of Some b \<Rightarrow> encode b | None \<Rightarrow> []) s1 s'"
    unfolding e by (simp add: init_index_changes_def)
  with reset_props(2)[OF r]
  show "init_index_changes xxh64 (case current_obs d of Some b \<Rightarrow> encode b | None \<Rightarrow> []) s s'"
    by (rule init_index_changes_trans)
  show "past_kv_cache_recurrent_infer s' = Map.empty" by (simp add: e)
qed

lemma retrieve_or_generate_ring:
  assumes "retrieve_or_generate_kvcache xxh64 fwd latent n sp s = Inr (sizes, s')"
  shows "ring_state s' = ring_state s"
proof -
  let ?l = "for_each [0..<n] (retrieve_or_generate_step xxh64 fwd latent sp) s"
  from assms obtain s1 where l: "?l = Inr s1"
    unfolding retrieve_or_generate_kvcache_def by (cases ?l) simp_all
  with assms have "s' = s1"
    unfolding retrieve_or_generate_kvcache_def by simp
  then show ?thesis
    using for_each_ring[OF l] retrieve_or_generate_step_ring by blast
qed

lemma forward_recurrent_inference_keeps:
  fixes s :: "'a::{zero,plus} WorldModel"
  assumes run: "forward_recurrent_inference xxh64 fwd history depth sp s = Inr (res, s')"
  shows "keeps_inv s s'"
proof -
  from run obtain latest act rest where h: "rev history = (latest, act) # rest"
    unfolding forward_recurrent_inference_def by (cases "rev history") auto
  let ?s0 = "s\<lparr>keys_values_wm_list := [], keys_values_wm_size_list := []\<rparr>"
  let ?g = "retrieve_or_generate_kvcache xxh64 fwd latest (length latest) sp ?s0"
  from run h obtain sizes0 s1 where g: "?g = Inr (sizes0, s1)"
    unfolding forward_recurrent_inference_def by (cases ?g) auto
  from run h g obtain sizes s2 where t: "trim_and_pad_kv_cache False s1 = Inr (sizes, s2)"
    unfolding forward_recurrent_inference_def by (cases "trim_and_pad_kv_cache False s1") auto
  let ?f1 = "forward_wm fwd (Act_tokens act) False sp (Some depth)
               (s2\<lparr>keys_values_wm_size_list_current := Some sizes\<rparr>)"
  from run h g t obtain out0 s3 where f1: "?f1 = Inr (out0, s3)"
    unfolding forward_recurrent_inference_def by (cases ?f1) auto
  from run h g t f1 have nz: "num_observations_tokens s3 \<noteq> 0"
    unfolding forward_recurrent_inference_def by (cases "num_observations_tokens s3 = 0") simp_all
  let ?f2 = "forward_wm fwd (Obs_embeddings (logits_observations out0)) False sp (Some depth)
               (s3\<lparr>keys_values_wm_size_list_current := Some (map Suc sizes)\<rparr>)"
  from run h g t f1 nz obtain o4 s4 where f2: "?f2 = Inr (o4, s4)"
    unfolding forward_recurrent_inference_def by (cases ?f2) auto
  from run h g t f1 nz f2 obtain ls where ls: "latent_state s4 = Some ls"
    unfolding forward_recurrent_inference_def by (cases "latent_state s4") simp_all
  let ?c = "cat_tokens (if 1 < num_observations_tokens s4
                        then [logits_observations out0, logits_observations o4]
                        else [logits_observations out0])"
  from run h g t f1 nz f2 ls obtain latent where c: "?c = Inr latent"
    unfolding forward_recurrent_inference_def by (cases ?c) simp_all
  let ?s5 = "s4\<lparr>keys_values_wm_size_list_current := Some (map Suc (map Suc sizes)),
                 latent_state := Some latent\<rparr>"
  from run h g t f1 nz f2 ls c have u: "update_cache_context xxh64 latent False ?s5 = Inr s'"
    unfolding forward_recurrent_inference_def
    by (cases "update_cache_context xxh64 latent False ?s5") simp_all
  have r0: "ring_state ?s0 = ring_state s" by (simp add: ring_state_def)
  have r1: "ring_state s1 = ring_state ?s0" by (rule retrieve_or_generate_ring[OF g])
  have r2: "ring_state s2 = ring_state s1" by (rule trim_and_pad_ring[OF t])
  have r3: "ring_state s3 = ring_state s2"
    using forward_wm_ring[OF f1] by (simp add: ring_state_def)
  have r4: "ring_state s4 = ring_state s3"
    using forward_wm_ring[OF f2] by (simp add: ring_state_def)
  have r5: "ring_state ?s5 = ring_state s4" by (simp add: ring_state_def)
  have r: "ring_state ?s5 = ring_state s"
    using r0 r1 r2 r3 r4 r5 by simp
  show ?thesis
    using keeps_inv_trans[OF ring_keeps_inv[OF r] update_cache_context_props(1)[OF u]] .
qed

lemma index_inv_init_store:
  assumes inv: "index_inv s" and nz: "shared_pool_size_init s \<noteq> 0"
  shows "index_inv (s\<lparr>shared_pool_init_infer :=
                        (shared_pool_init_infer s)[i := (shared_pool_init_infer s ! i)[c := x]],
                      shared_pool_index_init_envs :=
                        (shared_pool_index_init_envs s)[i := n mod shared_pool_size_init s]\<rparr>)"
    (is "index_inv ?s'")
proof -
  have a1: "\<forall>e h j. e < length (past_kv_cache_init_infer_envs ?s') \<longrightarrow>
        (past_kv_cache_init_infer_envs ?s' ! e) h = Some j \<longrightarrow> j < shared_pool_size_init ?s'"
    using inv unfolding index_inv_def by simp
  have a2: "\<forall>h j. past_kv_cache_recurrent_infer ?s' h = Some j \<longrightarrow> j < shared_pool_size ?s'"
    using inv unfolding index_inv_def by simp
  have a3: "\<forall>e. e < length (shared_pool_index_init_envs ?s') \<longrightarrow>
        shared_pool_size_init ?s' = 0 \<or> shared_pool_index_init_envs ?s' ! e < shared_pool_size_init ?s'"
  proof (intro allI impI)
    fix e assume e: "e < length (shared_pool_index_init_envs ?s')"
    then have e': "e < length (shared_pool_index_init_envs s)" by simp
    show "shared_pool_size_init ?s' = 0 \<or> shared_pool_index_init_envs ?s' ! e < shared_pool_size_init ?s'"
    proof (cases "e = i")
      case True
      then show ?thesis using nz e' by simp
    next
      case False
      then show ?thesis using inv e' unfolding index_inv_def by simp
    qed
  qed
  have a4: "shared_pool_size ?s' = 0 \<or> shared_pool_index ?s' < shared_pool_size ?s'"
    "length (shared_pool_recur_infer ?s') = shared_pool_size ?s'"
    "length (shared_pool_init_infer ?s') = length (past_kv_cache_init_infer_envs ?s')"
    using inv unfolding index_inv_def by simp_all
  have a6: "\<forall>e. e < length (shared_pool_init_infer ?s') \<longrightarrow>
        length (shared_pool_init_infer ?s' ! e) = shared_pool_size_init ?s'"
  proof (intro allI impI)
    fix e assume "e < length (shared_pool_init_infer ?s')"
    then have e': "e < length (shared_pool_init_infer s)" by simp
    then have "length (shared_pool_init_infer s ! e) = shared_pool_size_init s"
      using inv unfolding index_inv_def by blast
    then show "length (shared_pool_init_infer ?s' ! e) = shared_pool_size_init ?s'"
      using e' by (cases "e = i") simp_all
  qed
  show ?thesis unfolding index_inv_def using a1 a2 a3 a4 a6 by blast
qed

lemma index_inv_recur_store:
  assumes inv: "index_inv s" and nz: "shared_pool_size s \<noteq> 0"
  shows "index_inv (s\<lparr>shared_pool_recur_infer := (shared_pool_recur_infer s)[c := x],
                      shared_pool_index := n mod shared_pool_size s\<rparr>)"
  using assms unfolding index_inv_def by simp

lemma store_keeps:
  fixes s :: "'a::zero WorldModel"
  assumes run: "store pool src s = Inr (r, s')"
  shows "keeps_inv s s'"
proof (cases pool)
  case (Init_pool e)
  let ?c = "custom_copy_kv_cache_to_shared_init_envs src e s"
  from run Init_pool obtain ci s1 where c: "?c = Inr (ci, s1)"
    unfolding store_def by (cases ?c) auto
  with run Init_pool have e1: "s' = s1" unfolding store_def by simp
  from custom_copy_init_Inr[OF c] obtain dst where
    nz: "shared_pool_size_init s \<noteq> 0" and
    s1: "s1 = s\<lparr>shared_pool_init_infer :=
                    (shared_pool_init_infer s)[e := (shared_pool_init_infer s ! e)[ci := Some dst]],
                  shared_pool_index_init_envs :=
                    (shared_pool_index_init_envs s)[e := (ci + 1) mod shared_pool_size_init s]\<rparr>"
    by blast
  have "index_inv s \<longrightarrow> index_inv s1"
    unfolding s1 using index_inv_init_store[OF _ nz] by blast
  then show ?thesis unfolding e1 keeps_inv_def by (simp add: s1)
next
  case Recur_pool
  let ?c = "custom_copy_kv_cache_to_shared_recur src s"
  from run Recur_pool obtain ci s1 where c: "?c = Inr (ci, s1)"
    unfolding store_def by (cases ?c) auto
  with run Recur_pool have e1: "s' = s1" unfolding store_def by simp
  from custom_copy_recur_Inr[OF c] obtain dst where
    nz: "shared_pool_size s \<noteq> 0" and
    s1: "s1 = s\<lparr>shared_pool_recur_infer := (shared_pool_recur_infer s)[ci := Some dst],
                  shared_pool_index := (ci + 1) mod shared_pool_size s\<rparr>"
    by blast
  have "index_inv s \<longrightarrow> index_inv s1"
    unfolding s1 using index_inv_recur_store[OF _ nz] by blast
  then show ?thesis unfolding e1 keeps_inv_def by (simp add: s1)
next
  case Wm_pool
  let ?c = "custom_copy_kv_cache_to_shared_wm src s"
  from run Wm_pool obtain d s1 where c: "?c = Inr (d, s1)"
    unfolding store_def by (cases ?c) auto
  with run Wm_pool have e1: "s' = s1" unfolding store_def by simp
  show ?thesis unfolding e1 by (rule ring_keeps_inv[OF custom_copy_wm_ring[OF c]])
qed

lemma clear_caches_keeps: "keeps_inv s (clear_caches s)"
  unfolding keeps_inv_def index_inv_def clear_caches_def by simp

lemma compute_loss_keeps: "keeps_inv s (compute_loss flag s)"
  unfolding keeps_inv_def index_inv_def compute_loss_def by simp

lemma call_keeps:
  fixes s :: "'a::{zero,plus} WorldModel"
  assumes run: "call xxh64 fwd encode c s = Inr s'"
  shows "keeps_inv s s'"
proof (cases c)
  case (Store pool src)
  from run Store obtain r s1 where c1: "store pool src s = Inr (r, s1)"
    unfolding call_def by (cases "store pool src s") auto
  with run Store have "s' = s1" unfolding call_def by simp
  with store_keeps[OF c1] show ?thesis by simp
next
  case (Update_cache_context latent f)
  with run have "update_cache_context xxh64 latent f s = Inr s'"
    unfolding call_def by simp
  then show ?thesis by (rule update_cache_context_props(1))
next
  case (Retrieve_or_generate_kvcache latent n sp)
  let ?c = "retrieve_or_generate_kvcache xxh64 fwd latent n sp s"
  from run Retrieve_or_generate_kvcache obtain r s1 where c1: "?c = Inr (r, s1)"
    unfolding call_def by (cases ?c) auto
  with run Retrieve_or_generate_kvcache have "s' = s1" unfolding call_def by simp
  with ring_keeps_inv[OF retrieve_or_generate_ring[OF c1]] show ?thesis by simp
next
  case (Trim_and_pad_kv_cache f)
  let ?c = "trim_and_pad_kv_cache f s"
  from run Trim_and_pad_kv_cache obtain r s1 where c1: "?c = Inr (r, s1)"
    unfolding call_def by (cases ?c) auto
  with run Trim_and_pad_kv_cache have "s' = s1" unfolding call_def by simp
  with ring_keeps_inv[OF trim_and_pad_ring[OF c1]] show ?thesis by simp
next
  case (Forward_initial_inference d sp)
  let ?c = "forward_initial_inference xxh64 fwd encode d sp s"
  from run Forward_initial_inference obtain r s1 where c1: "?c = Inr (r, s1)"
    unfolding call_def by (cases ?c) auto
  with run Forward_initial_inference have "s' = s1" unfolding call_def by simp
  with forward_initial_inference_props(1)[OF c1] show ?thesis by simp
next
  case (Forward_recurrent_inference h depth sp)
  let ?c = "forward_recurrent_inference xxh64 fwd h depth sp s"
  from run Forward_recurrent_inference obtain r s1 where c1: "?c = Inr (r, s1)"
    unfolding call_def by (cases ?c) auto
  with run Forward_recurrent_inference have "s' = s1" unfolding call_def by simp
  with forward_recurrent_inference_keeps[OF c1] show ?thesis by simp
next
  case (Forward inp f sp depth)
  let ?c = "forward_wm fwd inp f sp depth s"
  from run Forward obtain r s1 where c1: "?c = Inr (r, s1)"
    unfolding call_def by (cases ?c) auto
  with run Forward have "s' = s1" unfolding call_def by simp
  with ring_keeps_inv[OF forward_wm_ring[OF c1]] show ?thesis by simp
next
  case (Wm_forward_for_initial_infererence lobs acts cur sp)
  let ?c = "wm_forward_for_initial_infererence xxh64 fwd lobs acts cur sp s"
  from run Wm_forward_for_initial_infererence obtain r s1 where c1: "?c = Inr (r, s1)"
    unfolding call_def by (cases ?c) auto
  with run Wm_forward_for_initial_infererence have "s' = s1" unfolding call_def by simp
  with wm_forward_props(1)[OF c1] show ?thesis by simp
next
  case (Reset_for_initial_inference d sp)
  let ?c = "reset_for_initial_inference xxh64 fwd encode d sp s"
  from run Reset_for_initial_inference obtain r s1 where c1: "?c = Inr (r, s1)"
    unfolding call_def by (cases ?c) auto
  with run Reset_for_initial_inference have "s' = s1" unfolding call_def by simp
  with reset_props(1)[OF c1] show ?thesis by simp
next
  case (Compute_loss flag)
  with run have "s' = compute_loss flag s" unfolding call_def by simp
  then show ?thesis by (simp add: compute_loss_keeps)
next
  case Clear_caches
  with run have "s' = clear_caches s" unfolding call_def by simp
  then show ?thesis by (simp add: clear_caches_keeps)
qed

lemma calls_keep:
  fixes s :: "'a::{zero,plus} WorldModel"
  assumes run: "for_each cs (call xxh64 fwd encode) s = Inr s'"
  shows "keeps_inv s s'"
proof (rule for_each_invariant[OF run, where P = "keeps_inv s"])
  show "keeps_inv s s" by (rule keeps_inv_refl)
next
  fix c and a b :: "'a WorldModel"
  assume "keeps_inv s a" and "call xxh64 fwd encode c a = Inr b"
  then show "keeps_inv s b" using call_keeps keeps_inv_trans by blast
qed

lemma index_inv_init_caches:
  "index_inv (init_caches cl layers envs rotary continuous obs_tokens sims)"
  unfolding index_inv_def init_caches_def by auto

lemma precompute_ring:
  assumes "precompute_pos_emb_diff_kv attn weight s = Inr s'"
  shows "ring_state s' = ring_state s"
proof (cases "context_length s \<le> 2")
  case True
  with assms show ?thesis by (simp add: precompute_pos_emb_diff_kv_def)
next
  case False
  let ?m = "map_r (layer_tables attn weight (context_length s)) [0..<num_layers s]"
  from assms False obtain ts where "?m = Inr ts"
    unfolding precompute_pos_emb_diff_kv_def by (cases ?m) simp_all
  with assms False have
    "s' = s\<lparr>pos_emb_diff_k := Some (map fst ts), pos_emb_diff_v := Some (map snd ts)\<rparr>"
    unfolding precompute_pos_emb_diff_kv_def by simp
  then show ?thesis by (simp add: ring_state_def)
qed

lemma init_WorldModel_inv:
  fixes m :: "'a::{zero,minus} WorldModel"
  assumes "init_WorldModel created init_weights cl layers envs rotary continuous obs_tokens sims
             = Inr (weights, m)"
  shows "index_inv m" and "shared_pool_size_init m = 2" and "shared_pool_size m = sims * envs"
    and "length (past_kv_cache_init_infer_envs m) = envs"
proof -
  let ?i = "init_caches cl layers envs rotary continuous obs_tokens sims :: 'a WorldModel"
  let ?build = "if \<not> rotary
                then precompute_pos_emb_diff_kv (attn_proj created) (pos_emb_weight created) ?i
                else Inr ?i"
  from assms obtain s where s: "?build = Inr s"
    unfolding init_WorldModel_def by (cases ?build) simp_all
  with assms have e: "s = m" unfolding init_WorldModel_def by simp
  have r: "ring_state m = ring_state ?i"
  proof (cases rotary)
    case True
    with s e show ?thesis by simp
  next
    case False
    with s e have "precompute_pos_emb_diff_kv (attn_proj created) (pos_emb_weight created) ?i = Inr m"
      by simp
    then show ?thesis by (rule precompute_ring)
  qed
  from index_inv_cong[OF r] show "index_inv m" by (simp add: index_inv_init_caches)
  from r show "shared_pool_size_init m = 2" and "shared_pool_size m = sims * envs"
    and "length (past_kv_cache_init_infer_envs m) = envs"
    by (simp_all add: ring_state_def init_caches_def)
qed

lemma index_inv_loads:
  assumes inv: "index_inv s"
  shows "\<forall>e h i. e < length (past_kv_cache_init_infer_envs s) \<and>
                 (past_kv_cache_init_infer_envs s ! e) h = Some i \<longrightarrow>
           i < shared_pool_size_init s \<and>
           lookup_init s e h = Inr (shared_pool_init_infer s ! e ! i)"
    and "\<forall>e h. e < length (past_kv_cache_init_infer_envs s) \<longrightarrow> \<not> isl (lookup_init s e h)"
    and "\<forall>h i. past_kv_cache_recurrent_infer s h = Some i \<longrightarrow>
           i < shared_pool_size s \<and> i < length (shared_pool_recur_infer s) \<and>
           lookup_recur s h = shared_pool_recur_infer s ! i"
proof -
  have hit: "i < shared_pool_size_init s \<and>
             lookup_init s e h = Inr (shared_pool_init_infer s ! e ! i)"
    if e: "e < length (past_kv_cache_init_infer_envs s)"
      and h: "(past_kv_cache_init_infer_envs s ! e) h = Some i" for e h i
  proof -
    from inv e h have i: "i < shared_pool_size_init s"
      unfolding index_inv_def by blast
    from inv e have e': "e < length (shared_pool_init_infer s)"
      unfolding index_inv_def by simp
    with inv have "length (shared_pool_init_infer s ! e) = shared_pool_size_init s"
      unfolding index_inv_def by blast
    with i have "i < length (shared_pool_init_infer s ! e)" by simp
    with e e' h have "lookup_init s e h = Inr (shared_pool_init_infer s ! e ! i)"
      by (simp add: lookup_init_def nth_r_def)
    with i show ?thesis by simp
  qed
  then show "\<forall>e h i. e < length (past_kv_cache_init_infer_envs s) \<and>
                 (past_kv_cache_init_infer_envs s ! e) h = Some i \<longrightarrow>
           i < shared_pool_size_init s \<and>
           lookup_init s e h = Inr (shared_pool_init_infer s ! e ! i)"
    by blast
  show "\<forall>e h. e < length (past_kv_cache_init_infer_envs s) \<longrightarrow> \<not> isl (lookup_init s e h)"
  proof (intro allI impI)
    fix e h assume e: "e < length (past_kv_cache_init_infer_envs s)"
    show "\<not> isl (lookup_init s e h)"
    proof (cases "(past_kv_cache_init_infer_envs s ! e) h")
      case None
      with e show ?thesis by (simp add: lookup_init_def nth_r_def)
    next
      case (Some i)
      from hit[OF e Some] show ?thesis by simp
    qed
  qed
  show "\<forall>h i. past_kv_cache_recurrent_infer s h = Some i \<longrightarrow>
           i < shared_pool_size s \<and> i < length (shared_pool_recur_infer s) \<and>
           lookup_recur s h = shared_pool_recur_infer s ! i"
  proof (intro allI impI)
    fix h i assume h: "past_kv_cache_recurrent_infer s h = Some i"
    with inv have i: "i < shared_pool_size s" unfolding index_inv_def by blast
    moreover from inv have "length (shared_pool_recur_infer s) = shared_pool_size s"
      unfolding index_inv_def by simp
    ultimately show "i < shared_pool_size s \<and> i < length (shared_pool_recur_infer s) \<and>
           lookup_recur s h = shared_pool_recur_infer s ! i"
      using h by (simp add: lookup_recur_def)
  qed
qed

text \<open>
  C7. The invariant of the indices holds of every model the constructor builds, with
  capacity 2 for every init pool and \<^verbatim>\<open>num_simulations * env_num\<close> for the recurrent
  pool, and every sequence of operations of the cache engine that returns keeps it and
  keeps the two capacities. Under the invariant every slot number recorded in an
  environment's init-phase index is below \<^verbatim>\<open>shared_pool_size_init\<close> and the init lookup
  through it returns the slot of that number; the init lookup raises for no environment
  that has an index and for no hash; every slot number recorded in the recurrent-phase
  index is below \<^verbatim>\<open>shared_pool_size\<close> and within the recurrent pool, so the recurrent
  lookup returns the slot of that number.
\<close>

theorem index_invariant:
  fixes self :: "'a::{zero,plus,minus} WorldModel"
  shows
   "(init_WorldModel created init_weights cl layers envs rotary continuous obs_tokens sims
       = Inr (weights, m) \<longrightarrow>
       index_inv (m :: 'a WorldModel) \<and> shared_pool_size_init m = 2 \<and>
       shared_pool_size m = sims * envs) \<and>
    (index_inv self \<and> for_each calls (call xxh64 fwd encode) self = Inr self' \<longrightarrow>
       index_inv self' \<and> shared_pool_size_init self' = shared_pool_size_init self \<and>
       shared_pool_size self' = shared_pool_size self) \<and>
    (index_inv self \<longrightarrow>
       (\<forall>e h i. e < length (past_kv_cache_init_infer_envs self) \<and>
                 (past_kv_cache_init_infer_envs self ! e) h = Some i \<longrightarrow>
            i < shared_pool_size_init self \<and>
            lookup_init self e h = Inr (shared_pool_init_infer self ! e ! i)) \<and>
       (\<forall>e h. e < length (past_kv_cache_init_infer_envs self) \<longrightarrow> \<not> isl (lookup_init self e h)) \<and>
       (\<forall>h i. past_kv_cache_recurrent_infer self h = Some i \<longrightarrow>
            i < shared_pool_size self \<and> i < length (shared_pool_recur_infer self) \<and>
            lookup_recur self h = shared_pool_recur_infer self ! i))"
proof (intro conjI impI)
  assume "init_WorldModel created init_weights cl layers envs rotary continuous obs_tokens sims
            = Inr (weights, m)"
  from init_WorldModel_inv[OF this]
  show "index_inv m" and "shared_pool_size_init m = 2" and "shared_pool_size m = sims * envs"
    by simp_all
next
  assume a: "index_inv self \<and> for_each calls (call xxh64 fwd encode) self = Inr self'"
  then have k: "keeps_inv self self'" using calls_keep by blast
  with a show "index_inv self'" and "shared_pool_size_init self' = shared_pool_size_init self"
    and "shared_pool_size self' = shared_pool_size self"
    by (simp_all add: keeps_inv_def)
next
  assume inv: "index_inv self"
  from index_inv_loads[OF inv]
  show "\<forall>e h i. e < length (past_kv_cache_init_infer_envs self) \<and>
                 (past_kv_cache_init_infer_envs self ! e) h = Some i \<longrightarrow>
            i < shared_pool_size_init self \<and>
            lookup_init self e h = Inr (shared_pool_init_infer self ! e ! i)"
    and "\<forall>e h. e < length (past_kv_cache_init_infer_envs self) \<longrightarrow> \<not> isl (lookup_init self e h)"
    and "\<forall>h i. past_kv_cache_recurrent_infer self h = Some i \<longrightarrow>
            i < shared_pool_size self \<and> i < length (shared_pool_recur_infer self) \<and>
            lookup_recur self h = shared_pool_recur_infer self ! i"
    by blast+
qed

text \<open>
  C10. Whenever \<^verbatim>\<open>forward_initial_inference\<close> returns, on the first step of an episode
  or on a later one, with or without cached contexts, the recurrent-phase index is empty.
  There are as many init-phase indices as before, and an entry of an environment's
  init-phase index that differs from before the call is the one under the hash of that
  environment's current latent state, the encoding of \<^verbatim>\<open>current_obs\<close>: every other
  entry is as it was, and without \<^verbatim>\<open>current_obs\<close> all of them are.
\<close>

theorem initial_inference_indices:
  fixes self :: "'a::{zero,plus} WorldModel"
  assumes run: "forward_initial_inference xxh64 fwd encode d start_pos self = Inr (res, self')"
  shows "past_kv_cache_recurrent_infer self' = Map.empty \<and>
         length (past_kv_cache_init_infer_envs self') = length (past_kv_cache_init_infer_envs self) \<and>
         (\<forall>e h. e < length (past_kv_cache_init_infer_envs self) \<and>
                (past_kv_cache_init_infer_envs self' ! e) h
                  \<noteq> (past_kv_cache_init_infer_envs self ! e) h \<longrightarrow>
              (\<exists>batch. current_obs d = Some batch \<and> e < length (encode batch) \<and>
                        h = hash_state xxh64 (encode batch ! e)))"
proof -
  note p = forward_initial_inference_props[OF run]
  have "\<exists>batch. current_obs d = Some batch \<and> e < length (encode batch) \<and>
                 h = hash_state xxh64 (encode batch ! e)"
    if e: "e < length (past_kv_cache_init_infer_envs self)"
      and h: "(past_kv_cache_init_infer_envs self' ! e) h \<noteq> (past_kv_cache_init_infer_envs self ! e) h"
    for e h
  proof (cases "current_obs d")
    case None
    with p(2) e h show ?thesis by (simp add: init_index_changes_def)
  next
    case (Some batch)
    with p(2) have "init_index_changes xxh64 (encode batch) self self'" by simp
    with e h have "e < length (encode batch) \<and> h = hash_state xxh64 (encode batch ! e)"
      unfolding init_index_changes_def by blast
    with Some show ?thesis by simp
  qed
  moreover from p(2) have
    "length (past_kv_cache_init_infer_envs self') = length (past_kv_cache_init_infer_envs self)"
    by (simp add: init_index_changes_def)
  ultimately show ?thesis using p(3) by blast
qed

theorem index_invariant_witness:
  "\<exists>w m s. init_WorldModel example_created example_init_weights 4 1 2 False False 1 2 = Inr (w, m) \<and>
     for_each example_calls (call example_xxh64 example_fwd (\<lambda>b. b)) m = Inr s \<and>
     index_inv m \<and> index_inv s \<and>
     shared_pool_size_init s = 2 \<and> shared_pool_size s = 4 \<and>
     (past_kv_cache_init_infer_envs s ! 0) ''0000000000000001'' = Some 0 \<and>
     lookup_init s 0 ''0000000000000001'' = Inr (shared_pool_init_infer s ! 0 ! 0) \<and>
     past_kv_cache_recurrent_infer s ''0000000000000001'' = Some 1 \<and>
     lookup_recur s ''0000000000000001'' = shared_pool_recur_infer s ! 1"
proof -
  have "\<not> isl (init_WorldModel example_created example_init_weights 4 1 2 False False 1 2
                 :: py_error + ((int, int) Weights \<times> int WorldModel))"
    by code_simp
  then obtain r where
    "init_WorldModel example_created example_init_weights 4 1 2 False False 1 2 = Inr r"
    using not_isl_Inr by blast
  then obtain w and m :: "int WorldModel" where
    init: "init_WorldModel example_created example_init_weights 4 1 2 False False 1 2 = Inr (w, m)"
    by (cases r) auto
  have "\<not> isl example_searched" by code_simp
  then obtain s where sr: "example_searched = Inr s"
    using not_isl_Inr by blast
  then have run: "for_each example_calls (call example_xxh64 example_fwd (\<lambda>b. b)) m = Inr s"
    unfolding example_searched_def example_built_def init by simp
  have "case example_searched of
          Inl e \<Rightarrow> False
        | Inr s \<Rightarrow> (past_kv_cache_init_infer_envs s ! 0) ''0000000000000001'' = Some 0 \<and>
                   past_kv_cache_recurrent_infer s ''0000000000000001'' = Some 1 \<and>
                   length (past_kv_cache_init_infer_envs s) = 2"
    by code_simp
  then have f: "(past_kv_cache_init_infer_envs s ! 0) ''0000000000000001'' = Some 0"
    "past_kv_cache_recurrent_infer s ''0000000000000001'' = Some 1"
    "length (past_kv_cache_init_infer_envs s) = 2"
    unfolding sr by simp_all
  from index_invariant[THEN conjunct1, THEN mp, OF init]
  have im: "index_inv m" and zm: "shared_pool_size_init m = 2" "shared_pool_size m = 2 * 2"
    by simp_all
  from index_invariant[THEN conjunct2, THEN conjunct1, THEN mp, OF conjI[OF im run]]
  have inv_s: "index_inv s" and zs: "shared_pool_size_init s = 2" "shared_pool_size s = 4"
    using zm by simp_all
  note loads = index_invariant[THEN conjunct2, THEN conjunct2, THEN mp, OF inv_s]
  from loads f have
    "lookup_init s 0 ''0000000000000001'' = Inr (shared_pool_init_infer s ! 0 ! 0)"
    "lookup_recur s ''0000000000000001'' = shared_pool_recur_infer s ! 1"
    by simp_all
  with init run im inv_s zs f show ?thesis by blast
qed

theorem initial_inference_indices_witness:
  "\<exists>s res s'. example_searched = Inr s \<and>
     forward_initial_inference example_xxh64 example_fwd (\<lambda>b. b) example_step (Pos_array [1, 1]) s
       = Inr (res, s') \<and>
     past_kv_cache_recurrent_infer s ''0000000000000001'' = Some 1 \<and>
     past_kv_cache_recurrent_infer s' = Map.empty \<and>
     (past_kv_cache_init_infer_envs s ! 0) ''0000000000000001'' = Some 0 \<and>
     (past_kv_cache_init_infer_envs s' ! 0) ''0000000000000001'' = Some 0 \<and>
     (past_kv_cache_init_infer_envs s ! 0) ''0000000000000003'' = None \<and>
     (past_kv_cache_init_infer_envs s' ! 0) ''0000000000000003'' = Some 1"
proof -
  let ?f = "\<lambda>s. forward_initial_inference example_xxh64 example_fwd (\<lambda>b. b) example_step
                   (Pos_array [1, 1]) (s :: int WorldModel)"
  have "\<not> isl (bind_r example_searched ?f)" by code_simp
  then obtain r where "bind_r example_searched ?f = Inr r"
    using not_isl_Inr by blast
  then obtain s where sr: "example_searched = Inr s" and "?f s = Inr r"
    by (auto simp: bind_r_Inr)
  then obtain res s' where run: "?f s = Inr (res, s')"
    by (cases r) auto
  have "case example_searched of
          Inl e \<Rightarrow> False
        | Inr s \<Rightarrow> (past_kv_cache_init_infer_envs s ! 0) ''0000000000000001'' = Some 0 \<and>
                   (past_kv_cache_init_infer_envs s ! 0) ''0000000000000003'' = None \<and>
                   past_kv_cache_recurrent_infer s ''0000000000000001'' = Some 1 \<and>
                   length (past_kv_cache_init_infer_envs s) = 2"
    by code_simp
  then have f: "(past_kv_cache_init_infer_envs s ! 0) ''0000000000000001'' = Some 0"
    "(past_kv_cache_init_infer_envs s ! 0) ''0000000000000003'' = None"
    "past_kv_cache_recurrent_infer s ''0000000000000001'' = Some 1"
    "length (past_kv_cache_init_infer_envs s) = 2"
    unfolding sr by simp_all
  have "case bind_r example_searched ?f of
          Inl e \<Rightarrow> False
        | Inr (res, s') \<Rightarrow> (past_kv_cache_init_infer_envs s' ! 0) ''0000000000000003'' = Some 1"
    by code_simp
  then have g: "(past_kv_cache_init_infer_envs s' ! 0) ''0000000000000003'' = Some 1"
    unfolding sr bind_r.simps run by simp
  have k: "hash_state example_xxh64 ([[4, 4, 4], [2, 3]] ! 0) = ''0000000000000003''"
    by code_simp
  note th = initial_inference_indices[OF run]
  from th have e: "past_kv_cache_recurrent_infer s' = Map.empty" by simp
  have "(past_kv_cache_init_infer_envs s' ! 0) ''0000000000000001''
          = (past_kv_cache_init_infer_envs s ! 0) ''0000000000000001''"
  proof (rule ccontr)
    assume "(past_kv_cache_init_infer_envs s' ! 0) ''0000000000000001''
              \<noteq> (past_kv_cache_init_infer_envs s ! 0) ''0000000000000001''"
    with f(4) have
      "0 < length (past_kv_cache_init_infer_envs s) \<and>
       (past_kv_cache_init_infer_envs s' ! 0) ''0000000000000001''
         \<noteq> (past_kv_cache_init_infer_envs s ! 0) ''0000000000000001''"
      by simp
    with th have
      "\<exists>batch. current_obs example_step = Some batch \<and> 0 < length batch \<and>
         ''0000000000000001'' = hash_state example_xxh64 (batch ! 0)"
      by blast
    then show False
      using k by (simp add: example_step_def)
  qed
  with f have "(past_kv_cache_init_infer_envs s' ! 0) ''0000000000000001'' = Some 0" by simp
  with sr run f e g show ?thesis by blast
qed

end
